theory Spec2Isabelle
  imports Main "HOL-Library.Word" "HOL-Library.List_Lexorder" "HOL-Library.Product_Lexorder"
    "HOL-Library.AList"
begin

unbundle bit_operations_syntax

section \<open>Bytes and common utilities (common/util.cpp)\<close>

type_synonym byte = "8 word"
type_synonym Bytes = "byte list"

text \<open>
  Modelled from the spec: the constant \<open>kHashLength\<close> (common/base.hpp, not in the
  sources): a header hash has 32 bytes.
\<close>

definition kHashLength :: nat where
  "kHashLength = 32"

text \<open>
  \<open>std::memcpy(dst + off, src, n)\<close> on byte buffers held as lists: byte \<open>i\<close> of the
  source goes to position \<open>off + i\<close> of the destination, for \<open>i < n\<close>.
\<close>

fun memcpy :: "Bytes \<Rightarrow> nat \<Rightarrow> Bytes \<Rightarrow> nat \<Rightarrow> Bytes" where
  "memcpy dst off src 0 = dst"
| "memcpy dst off src (Suc n) = (memcpy dst off src n)[off + n := src ! n]"

text \<open>
  \<open>to_hash\<close>: \<open>evmc::bytes32 out;\<close> is value-initialised by the evmc C++ wrapper
  (all 32 bytes zero); then \<open>n = min(bytes.length(), kHashLength)\<close> bytes are copied to
  \<open>out.bytes + kHashLength - n\<close>.
\<close>

definition to_hash :: "Bytes \<Rightarrow> Bytes" where
  "to_hash bytes =
     (let out = replicate kHashLength (0 :: byte);
          n = min (length bytes) kHashLength
      in memcpy out (kHashLength - n) bytes n)"

subsection \<open>Hexadecimal text\<close>

text \<open>
  \<open>boost::algorithm::hex_lower\<close> writes, for every byte, the digit of its high nibble
  and then the digit of its low nibble, taken from \<open>0123456789abcdef\<close>.
\<close>

definition hex_digit_lower :: "nat \<Rightarrow> char" where
  "hex_digit_lower n = ''0123456789abcdef'' ! n"

primrec hex_lower :: "Bytes \<Rightarrow> string" where
  "hex_lower [] = []"
| "hex_lower (b # bs) =
     hex_digit_lower (unat (drop_bit 4 b)) # hex_digit_lower (unat (b AND 15)) # hex_lower bs"

definition to_hex :: "Bytes \<Rightarrow> string" where
  "to_hex bytes = hex_lower bytes"

text \<open>
  \<open>boost::algorithm::unhex\<close> reads two characters per output byte. A character that is
  not a hexadecimal digit raises \<open>non_hex_input\<close>; an input that ends in the middle of a
  byte raises \<open>not_enough_input\<close>.
\<close>

datatype hex_decode_error = non_hex_input | not_enough_input

definition hex_char_to_int :: "char \<Rightarrow> hex_decode_error + nat" where
  "hex_char_to_int c =
     (let v = (of_char c :: nat) in
      if 48 \<le> v \<and> v \<le> 57 then Inr (v - 48)
      else if 65 \<le> v \<and> v \<le> 70 then Inr (v - 65 + 10)
      else if 97 \<le> v \<and> v \<le> 102 then Inr (v - 97 + 10)
      else Inl non_hex_input)"

fun unhex :: "string \<Rightarrow> hex_decode_error + Bytes" where
  "unhex [] = Inr []"
| "unhex [c] = (case hex_char_to_int c of Inl e \<Rightarrow> Inl e | Inr h \<Rightarrow> Inl not_enough_input)"
| "unhex (c1 # c2 # rest) =
     (case hex_char_to_int c1 of
        Inl e \<Rightarrow> Inl e
      | Inr h \<Rightarrow>
         (case hex_char_to_int c2 of
            Inl e \<Rightarrow> Inl e
          | Inr l \<Rightarrow>
             (case unhex rest of
                Inl e \<Rightarrow> Inl e
              | Inr bs \<Rightarrow> Inr (of_nat (16 * h + l) # bs))))"

text \<open>
  \<open>from_hex\<close>: a leading \<open>0x\<close> or \<open>0X\<close> is dropped, the rest is handed to \<open>unhex\<close>,
  whose exceptions propagate to the caller.
\<close>

definition from_hex :: "string \<Rightarrow> hex_decode_error + Bytes" where
  "from_hex hex =
     (let hex' = (if length hex \<ge> 2 \<and> hex ! 0 = CHR ''0''
                     \<and> (hex ! 1 = CHR ''x'' \<or> hex ! 1 = CHR ''X'')
                  then drop 2 hex else hex)
      in unhex hex')"


section \<open>Big-endian integers (common/endian.hpp, intx)\<close>

text \<open>
  Modelled from the spec: \<open>endian::load_big_u64\<close> (common/endian.hpp, not in the
  sources) decodes a block number from eight big-endian bytes. The callers hand it the
  pointer to a key without its length; on a key of fewer than eight bytes the C++ code
  reads out of bounds, which the model cannot follow (it reads what is there), so the
  statements below are about tables whose keys have eight bytes. \<open>intx::bswap\<close> of
  a little-endian buffer is the big-endian reading of the same bytes.
\<close>

definition load_big :: "Bytes \<Rightarrow> 'a::len word" where
  "load_big bs = foldl (\<lambda>acc b. push_bit 8 acc OR ucast b) 0 bs"

definition load_big_u64 :: "Bytes \<Rightarrow> 64 word" where
  "load_big_u64 p = load_big (take 8 p)"

definition load_big_u256 :: "Bytes \<Rightarrow> 256 word" where
  "load_big_u256 p = load_big (take 32 p)"

section \<open>RLP decoding (rlp/decode.cpp)\<close>

text \<open>
  The input stream is the list of bytes not yet consumed. \<open>decode_header\<close> switches the
  stream's exception mask on (\<open>eofbit | failbit | badbit\<close>), so that reading or peeking
  past the end throws \<open>std::ios_base::failure\<close>; \<open>read_uint64\<close> is modelled as it runs
  under that mask, which is how every caller in this file reaches it.
\<close>

datatype rlp_exception =
    DecodingError string
  | ios_failure
  | assertion_failed

type_synonym istream = Bytes

text \<open>
  Modelled from the spec: \<open>struct Header\<close> and \<open>DecodingError\<close> (rlp/decode.hpp, not in
  the sources): a header says whether the item is a list and how long its payload is; a
  decoding error carries its message.
\<close>

record Header =
  list :: bool
  payload_length :: "64 word"

definition peek :: "istream \<Rightarrow> rlp_exception + byte" where
  "peek from = (case from of [] \<Rightarrow> Inl ios_failure | b # _ \<Rightarrow> Inr b)"

definition stream_read :: "istream \<Rightarrow> nat \<Rightarrow> rlp_exception + (Bytes \<times> istream)" where
  "stream_read from n =
     (if length from < n then Inl ios_failure else Inr (take n from, drop n from))"

definition read_uint64 :: "istream \<Rightarrow> nat \<Rightarrow> rlp_exception + (64 word \<times> istream)" where
  "read_uint64 from len =
     (if \<not> len \<le> 8 then Inl assertion_failed
      else if len = 0 then Inr (0, from)
      else case peek from of
             Inl e \<Rightarrow> Inl e
           | Inr b \<Rightarrow>
               if b = 0 then Inl (DecodingError ''leading zero(s)'')
               else case stream_read from len of
                      Inl e \<Rightarrow> Inl e
                    | Inr (payload, from') \<Rightarrow>
                        let buf = memcpy (replicate 8 0) (8 - len) payload len
                        in Inr (load_big_u64 buf, from'))"

definition decode_header :: "istream \<Rightarrow> rlp_exception + (Header \<times> istream)" where
  "decode_header from =
     (case from of
        [] \<Rightarrow> Inl ios_failure
      | b # from1 \<Rightarrow>
          if b < 0x80 then Inr (\<lparr>list = False, payload_length = 1\<rparr>, from)
          else if b < 0xB8 then
            (let len = ucast (b - 0x80) :: 64 word in
             if len = 1 then
               (case peek from1 of
                  Inl e \<Rightarrow> Inl e
                | Inr c \<Rightarrow>
                    if c < 0x80 then Inl (DecodingError ''non-canonical single byte'')
                    else Inr (\<lparr>list = False, payload_length = len\<rparr>, from1))
             else Inr (\<lparr>list = False, payload_length = len\<rparr>, from1))
          else if b < 0xC0 then
            (case read_uint64 from1 (unat (b - 0xB7)) of
               Inl e \<Rightarrow> Inl e
             | Inr (len, from2) \<Rightarrow>
                 if len < 56 then Inl (DecodingError ''non-canonical size'')
                 else Inr (\<lparr>list = False, payload_length = len\<rparr>, from2))
          else if b < 0xF8 then
            Inr (\<lparr>list = True, payload_length = ucast (b - 0xC0)\<rparr>, from1)
          else
            (case read_uint64 from1 (unat (b - 0xF7)) of
               Inl e \<Rightarrow> Inl e
             | Inr (len, from2) \<Rightarrow>
                 if len < 56 then Inl (DecodingError ''non-canonical size'')
                 else Inr (\<lparr>list = True, payload_length = len\<rparr>, from2)))"

text \<open>\<open>decode<uint64_t>\<close>\<close>

definition decode_uint64 :: "istream \<Rightarrow> rlp_exception + (64 word \<times> istream)" where
  "decode_uint64 from =
     (case decode_header from of
        Inl e \<Rightarrow> Inl e
      | Inr (h, from1) \<Rightarrow>
          if list h then Inl (DecodingError ''unexpected list'')
          else if payload_length h > 8 then Inl (DecodingError ''uint64 overflow'')
          else read_uint64 from1 (unat (payload_length h)))"

text \<open>\<open>decode<intx::uint256>\<close>\<close>

definition decode_uint256 :: "istream \<Rightarrow> rlp_exception + (256 word \<times> istream)" where
  "decode_uint256 from =
     (case decode_header from of
        Inl e \<Rightarrow> Inl e
      | Inr (h, from1) \<Rightarrow>
          if list h then Inl (DecodingError ''unexpected list'')
          else if payload_length h > 32 then Inl (DecodingError ''uint256 overflow'')
          else if payload_length h = 0 then Inr (0, from1)
          else case peek from1 of
                 Inl e \<Rightarrow> Inl e
               | Inr b \<Rightarrow>
                   if b = 0 then Inl (DecodingError ''leading zero(s)'')
                   else case stream_read from1 (unat (payload_length h)) of
                          Inl e \<Rightarrow> Inl e
                        | Inr (payload, from2) \<Rightarrow>
                            let len = unat (payload_length h);
                                buf = memcpy (replicate 32 0) (32 - len) payload len
                            in Inr (load_big_u256 buf, from2))"


section \<open>The key-value store\<close>

text \<open>
  The store is libmdbx, used through its C++ interface. A table is the sequence of its
  entries in the order a cursor walks them (ascending keys, compared as byte strings).
  A database transaction sees three tables here.
\<close>

type_synonym BlockNum = "64 word"
type_synonym Entry = "Bytes \<times> Bytes"
type_synonym table = "Entry list"

record db_state =
  CanonicalHashes :: table
  HeaderNumbers :: table
  SyncStageProgress :: "(string \<times> BlockNum) list"

text \<open>
  Modelled from the spec: \<open>db::TransactionManager\<close> (db/access_layer.hpp, not in the
  sources). A stage works in one transaction, whose writes become durable together at
  \<open>commit\<close>: the record keeps the working state and what has been committed.
\<close>

record TransactionManager =
  txn :: db_state
  committed :: db_state

definition commit :: "TransactionManager \<Rightarrow> TransactionManager" where
  "commit tx_mgr = tx_mgr\<lparr>committed := txn tx_mgr\<rparr>"

text \<open>
  Modelled from the spec: \<open>db::block_key\<close> (db/util.hpp, not in the sources): the block
  number as eight big-endian bytes.
\<close>

definition block_key :: "BlockNum \<Rightarrow> Bytes" where
  "block_key n = map (\<lambda>i. ucast (drop_bit (8 * (7 - i)) n)) [0..<8]"

text \<open>
  Cursor operations of the store. A cursor positioned on an entry is the list of the
  entries from there on; an empty list is \<open>done == false\<close>.
  \<open>find\<close> and \<open>seek\<close> look for the exact key, \<open>to_next\<close> steps to the following
  entry, \<open>erase\<close> removes the entry under the key the cursor was moved to.
\<close>

definition cursor_find :: "table \<Rightarrow> Bytes \<Rightarrow> table" where
  "cursor_find t k = dropWhile (\<lambda>e. fst e \<noteq> k) t"

definition cursor_to_next :: "table \<Rightarrow> table" where
  "cursor_to_next cur = tl cur"

definition cursor_seek :: "table \<Rightarrow> Bytes \<Rightarrow> bool" where
  "cursor_seek t k = (map_of t k \<noteq> None)"

definition cursor_erase :: "table \<Rightarrow> Bytes \<Rightarrow> table" where
  "cursor_erase t k = AList.delete k t"

definition ms_entries :: "table \<Rightarrow> nat" where
  "ms_entries t = length t"

datatype MDBX_put_flags_t = MDBX_UPSERT | MDBX_APPEND

text \<open>
  Writing through a cursor. With \<open>MDBX_UPSERT\<close> the entry goes to its place in key
  order and replaces an entry of the same key. With \<open>MDBX_APPEND\<close> the entry is added
  at the end, and a key that is not greater than the last key of the table is refused.
\<close>

fun upsert :: "Bytes \<Rightarrow> Bytes \<Rightarrow> table \<Rightarrow> table" where
  "upsert k v [] = [(k, v)]"
| "upsert k v ((k', v') # t) =
     (if k < k' then (k, v) # (k', v') # t
      else if k = k' then (k, v) # t
      else (k', v') # upsert k v t)"

datatype exception = mdbx_exception | std_exception | other_exception

definition cursor_put :: "table \<Rightarrow> Entry \<Rightarrow> MDBX_put_flags_t \<Rightarrow> exception + table" where
  "cursor_put t e flags =
     (case flags of
        MDBX_UPSERT \<Rightarrow> Inr (upsert (fst e) (snd e) t)
      | MDBX_APPEND \<Rightarrow>
          if t = [] \<or> fst (last t) < fst e then Inr (t @ [e]) else Inl mdbx_exception)"

section \<open>The collector (etl/collector.hpp)\<close>

text \<open>
  Modelled from the spec: \<open>etl::Collector\<close> (etl/collector.hpp, not in the sources).
  \<open>collect\<close> appends an entry; \<open>load\<close> consumes all entries in sorted order (by key,
  then value) and inserts them into the destination with the given mode. In \<open>APPEND\<close>
  mode keys must be strictly increasing and a violation is fatal; in \<open>UPSERT\<close> mode
  duplicate keys overwrite. Spilling to disk does not change the sequence loaded, so the
  buffer alone is kept.
\<close>

type_synonym Collector = "Entry list"

definition collect :: "Collector \<Rightarrow> Entry \<Rightarrow> Collector" where
  "collect collector e = collector @ [e]"

fun load_entries :: "Entry list \<Rightarrow> table \<Rightarrow> MDBX_put_flags_t \<Rightarrow> exception + table" where
  "load_entries [] t flags = Inr t"
| "load_entries (e # es) t flags =
     (case cursor_put t e flags of
        Inl ex \<Rightarrow> Inl ex
      | Inr t' \<Rightarrow> load_entries es t' flags)"

definition collector_load :: "Collector \<Rightarrow> table \<Rightarrow> MDBX_put_flags_t \<Rightarrow> exception + table" where
  "collector_load collector target flags = load_entries (sort collector) target flags"

section \<open>Stage results and the sync context (stagedsync/common.hpp)\<close>

datatype StageResult =
    kSuccess
  | kUnknownChainId
  | kUnknownConsensusEngine
  | kBadBlockHash
  | kBadChainSequence
  | kInvalidRange
  | kInvalidProgress
  | kInvalidBlock
  | kInvalidTransaction
  | kMissingSenders
  | kDecodingError
  | kUnexpectedError
  | kUnknownError
  | kDbError
  | kAborted
  | kNotImplemented

text \<open>
  Modelled from the spec: the stage keys and \<open>db::stages::read_stage_progress\<close> /
  \<open>write_stage_progress\<close> (db/stages.hpp, not in the sources). A stage's watermark
  is kept under its key in \<open>SyncStageProgress\<close> and defaults to 0 when absent.
\<close>

definition kBlockBodiesKey :: string where
  "kBlockBodiesKey = ''Bodies''"

definition kBlockHashesKey :: string where
  "kBlockHashesKey = ''BlockHashes''"

definition read_stage_progress :: "db_state \<Rightarrow> string \<Rightarrow> BlockNum" where
  "read_stage_progress tx stage_key =
     (case map_of (SyncStageProgress tx) stage_key of None \<Rightarrow> 0 | Some v \<Rightarrow> v)"

definition write_stage_progress :: "db_state \<Rightarrow> string \<Rightarrow> BlockNum \<Rightarrow> db_state" where
  "write_stage_progress tx stage_key progress =
     tx\<lparr>SyncStageProgress := AList.update stage_key progress (SyncStageProgress tx)\<rparr>"

record SyncContext =
  first_cycle :: bool
  is_done :: bool
  progresses :: "(string \<times> BlockNum) list"
  prune_progresses :: "(string \<times> BlockNum) list"
  unwind_height :: "BlockNum option"

definition get_progress :: "SyncContext \<Rightarrow> db_state \<Rightarrow> string \<Rightarrow> BlockNum \<times> SyncContext" where
  "get_progress context tx stage_key =
     (case map_of (progresses context) stage_key of
        Some p \<Rightarrow> (p, context)
      | None \<Rightarrow>
          let db_progress = read_stage_progress tx stage_key
          in (db_progress,
              context\<lparr>progresses := AList.update stage_key db_progress (progresses context)\<rparr>))"

text \<open>
  \<open>needs_unwind\<close> returns its answer together with the out-parameter
  \<open>unwind_progress\<close>, which is written only when the answer is yes.
\<close>

definition needs_unwind :: "SyncContext \<Rightarrow> BlockNum \<Rightarrow> BlockNum \<Rightarrow> bool \<times> BlockNum" where
  "needs_unwind context progress unwind_progress =
     (case unwind_height context of
        None \<Rightarrow> (False, unwind_progress)
      | Some h \<Rightarrow> if h \<ge> progress then (False, unwind_progress) else (True, h))"

definition update_progress ::
  "SyncContext \<Rightarrow> db_state \<Rightarrow> string \<Rightarrow> BlockNum \<Rightarrow> SyncContext \<times> db_state" where
  "update_progress context tx stage_key progress =
     (context\<lparr>progresses := AList.update stage_key progress (progresses context)\<rparr>,
      write_stage_progress tx stage_key progress)"

text \<open>
  \<open>IStage\<close>: the attributes every stage has. \<open>forward\<close> and \<open>unwind\<close> are pure virtual;
  \<open>prune\<close> has a body in the base class, which a stage may override.
\<close>

record IStage =
  stage_key :: string
  ordinal :: "32 word"
  has_pruning :: bool
  disabled :: bool

type_synonym stage_fn =
  "TransactionManager \<Rightarrow> SyncContext \<Rightarrow> StageResult \<times> TransactionManager \<times> SyncContext"

definition IStage_prune :: "IStage \<Rightarrow> stage_fn" where
  "IStage_prune stage txn_mgr context = (kSuccess, txn_mgr, context)"


text \<open>
  A stage object: its attributes and, where its class overrides \<open>prune\<close>, the
  overriding body. A call of \<open>prune\<close> is dispatched to the override when there is one
  and to \<open>IStage::prune\<close> otherwise.
\<close>

record Stage = IStage +
  prune_override :: "stage_fn option"

definition prune :: "Stage \<Rightarrow> stage_fn" where
  "prune stage txn_mgr context =
     (case prune_override stage of
        None \<Rightarrow> IStage_prune (IStage.truncate stage) txn_mgr context
      | Some f \<Rightarrow> f txn_mgr context)"

section \<open>The BlockHashes stage (stagedsync/stage_blockhashes.cpp)\<close>

text \<open>
  The constructor: \<open>IStage(db::stages::kBlockHashesKey, ordinal, false, false)\<close>; the
  class declares \<open>forward\<close> and \<open>unwind\<close> only.
\<close>

definition StageBlockHashes :: "32 word \<Rightarrow> Stage" where
  "StageBlockHashes ord =
     \<lparr>stage_key = kBlockHashesKey, ordinal = ord, has_pruning = False, disabled = False,
      prune_override = None\<rparr>"

text \<open>
  The \<open>while (source_data.done)\<close> loop of \<open>forward\<close>. The cursor is the list of entries
  from the current one on, and \<open>to_next\<close> goes on with its tail. The loop leaves with
  a result code, or falls through with the last block number seen and the collector.
\<close>

fun forward_loop ::
  "table \<Rightarrow> BlockNum \<Rightarrow> BlockNum \<Rightarrow> Collector \<Rightarrow> StageResult + (BlockNum \<times> Collector)" where
  "forward_loop [] expected_block_number block_number collector =
     Inr (block_number, collector)"
| "forward_loop ((key, val) # source_rest) expected_block_number block_number collector =
     (let block_number = load_big_u64 key in
      if block_number \<noteq> expected_block_number then Inl kBadChainSequence
      else if length val \<noteq> kHashLength then Inl kBadBlockHash
      else forward_loop source_rest (expected_block_number + 1) block_number
             (collect collector (val, key)))"

text \<open>The three \<open>catch\<close> clauses shared by \<open>forward\<close> and \<open>unwind\<close>.\<close>

definition catch_all :: "exception \<Rightarrow> StageResult" where
  "catch_all ex =
     (case ex of
        mdbx_exception \<Rightarrow> kDbError
      | std_exception \<Rightarrow> kUnexpectedError
      | other_exception \<Rightarrow> kUnknownError)"

text \<open>
  The end of \<open>forward\<close>, from \<open>collector.load\<close> on: the load with the chosen mode,
  the new watermark, the commit. An exception of the load is caught by the clauses above
  and nothing is committed.
\<close>

definition forward_load ::
  "Stage \<Rightarrow> TransactionManager \<Rightarrow> SyncContext \<Rightarrow> BlockNum \<Rightarrow> Collector \<Rightarrow> MDBX_put_flags_t
   \<Rightarrow> StageResult \<times> TransactionManager \<times> SyncContext" where
  "forward_load stage tx_mgr context block_number collector db_flags =
     (case collector_load collector (HeaderNumbers (txn tx_mgr)) db_flags of
        Inl ex \<Rightarrow> (catch_all ex, tx_mgr, context)
      | Inr target_table' \<Rightarrow>
          let tx1 = (txn tx_mgr)\<lparr>HeaderNumbers := target_table'\<rparr>;
              (context', tx2) = update_progress context tx1 (stage_key stage) block_number
          in (kSuccess, commit (tx_mgr\<lparr>txn := tx2\<rparr>), context'))"

definition StageBlockHashes_forward :: "Stage \<Rightarrow> stage_fn" where
  "StageBlockHashes_forward stage tx_mgr context =
     (let (progress_bodies, context1) = get_progress context (txn tx_mgr) kBlockBodiesKey;
          (progress, context2) = get_progress context1 (txn tx_mgr) (stage_key stage);
          expected_block_number = (if progress \<noteq> 0 then progress + 1 else progress);
          source_key = block_key expected_block_number;
          source_data = cursor_find (CanonicalHashes (txn tx_mgr)) source_key
      in case forward_loop source_data expected_block_number 0 [] of
           Inl res \<Rightarrow> (res, tx_mgr, context2)
         | Inr (block_number, collector) \<Rightarrow>
             if block_number \<noteq> progress_bodies then (kBadChainSequence, tx_mgr, context2)
             else if collector = [] then (kSuccess, tx_mgr, context2)
             else
               let target_table = HeaderNumbers (txn tx_mgr);
                   target_table_empty = (ms_entries target_table = 0);
                   db_flags = (if target_table_empty then MDBX_APPEND else MDBX_UPSERT)
               in forward_load stage tx_mgr context2 block_number collector db_flags)"

text \<open>
  The loop of \<open>unwind\<close>: the same checks, then the entry under the hash is erased from
  the target table when \<open>seek\<close> finds it. Erasures made before a failing check stay in
  the working transaction, so the loop hands back the target table in both cases.
\<close>

fun unwind_loop :: "table \<Rightarrow> BlockNum \<Rightarrow> table \<Rightarrow> (StageResult \<times> table) + table" where
  "unwind_loop [] expected_block_number target_table = Inr target_table"
| "unwind_loop ((key, val) # source_rest) expected_block_number target_table =
     (let block_number = load_big_u64 key in
      if block_number \<noteq> expected_block_number then Inl (kBadChainSequence, target_table)
      else if length val \<noteq> kHashLength then Inl (kBadBlockHash, target_table)
      else unwind_loop source_rest (expected_block_number + 1)
             (if cursor_seek target_table val then cursor_erase target_table val
              else target_table))"

definition StageBlockHashes_unwind :: "Stage \<Rightarrow> stage_fn" where
  "StageBlockHashes_unwind stage tx_mgr context =
     (let (progress, context1) = get_progress context (txn tx_mgr) (stage_key stage);
          (need, unwind_progress) = needs_unwind context1 progress 0
      in if \<not> need then (kSuccess, tx_mgr, context1)
         else
           let expected_block_number =
                 (if unwind_progress \<noteq> 0 then unwind_progress + 1 else unwind_progress);
               source_key = block_key expected_block_number;
               source_data = cursor_find (CanonicalHashes (txn tx_mgr)) source_key
           in case unwind_loop source_data expected_block_number (HeaderNumbers (txn tx_mgr)) of
                Inl (res, target_table') \<Rightarrow>
                  (res, tx_mgr\<lparr>txn := (txn tx_mgr)\<lparr>HeaderNumbers := target_table'\<rparr>\<rparr>, context1)
              | Inr target_table' \<Rightarrow>
                  let tx1 = (txn tx_mgr)\<lparr>HeaderNumbers := target_table'\<rparr>;
                      (context2, tx2) =
                         update_progress context1 tx1 (stage_key stage) unwind_progress
                  in (kSuccess, commit (tx_mgr\<lparr>txn := tx2\<rparr>), context2))"


section \<open>Notions used in the statements\<close>

text \<open>The watermark of a stage as a stage reads it: through the context's cache.\<close>

definition progress_of :: "SyncContext \<Rightarrow> TransactionManager \<Rightarrow> string \<Rightarrow> BlockNum" where
  "progress_of context tx_mgr key = fst (get_progress context (txn tx_mgr) key)"

text \<open>
  The block number at which \<open>forward\<close> and \<open>unwind\<close> start reading \<open>CanonicalHashes\<close>:
  the block after the given height, and block 0 when the height is 0.
\<close>

definition first_block :: "BlockNum \<Rightarrow> BlockNum" where
  "first_block height = (if height \<noteq> 0 then height + 1 else height)"

text \<open>
  A run of canonical entries that passes both checks of the loops: keys count up from
  the expected block number and every hash has 32 bytes.
\<close>

fun in_sequence :: "table \<Rightarrow> BlockNum \<Rightarrow> bool" where
  "in_sequence [] expected = True"
| "in_sequence ((key, val) # rest) expected =
     (load_big_u64 key = expected \<and> length val = kHashLength \<and> in_sequence rest (expected + 1))"

text \<open>The keys of \<open>CanonicalHashes\<close> are block keys: eight bytes each.\<close>

definition eight_byte_keys :: "table \<Rightarrow> bool" where
  "eight_byte_keys t = (\<forall>e \<in> set t. length (fst e) = 8)"

text \<open>The hashes of the scenarios: 32 bytes, all equal.\<close>

definition hash_of_byte :: "byte \<Rightarrow> Bytes" where
  "hash_of_byte b = replicate 32 b"

text \<open>
  Concrete states for the scenarios: a canonical chain holding the given hashes for
  blocks 0, 1, 2, ..., a transaction manager just opened on a database, and the context
  as \<open>SyncContext::clear\<close> leaves it (with the unwind height given).
\<close>

definition canonical_chain :: "BlockNum \<Rightarrow> Bytes list \<Rightarrow> table" where
  "canonical_chain start hashes =
     map (\<lambda>(i, h). (block_key (start + of_nat i), h)) (enumerate 0 hashes)"

definition opened_on :: "db_state \<Rightarrow> TransactionManager" where
  "opened_on db = \<lparr>txn = db, committed = db\<rparr>"

definition cleared_context :: "BlockNum option \<Rightarrow> SyncContext" where
  "cleared_context unwind_to =
     \<lparr>first_cycle = True, is_done = False, progresses = [], prune_progresses = [],
      unwind_height = unwind_to\<rparr>"

text \<open>
  Databases of the scenarios. \<open>chain_db\<close>: blocks 0 to 3 are canonical, with the
  hashes \<open>0x11\<dots>\<close>, \<open>0xaa\<dots>\<close>, \<open>0xbb\<dots>\<close>, \<open>0xcc\<dots>\<close>; the inverse index and the
  watermarks are given. \<open>gap_db\<close>: block 2 is missing. \<open>short_hash_db\<close>: the hash of
  block 2 has 31 bytes.
\<close>

definition chain_db :: "table \<Rightarrow> (string \<times> BlockNum) list \<Rightarrow> db_state" where
  "chain_db index watermarks =
     \<lparr>CanonicalHashes =
        canonical_chain 0 [hash_of_byte 0x11, hash_of_byte 0xaa, hash_of_byte 0xbb, hash_of_byte 0xcc],
      HeaderNumbers = index,
      SyncStageProgress = watermarks\<rparr>"

definition gap_db :: db_state where
  "gap_db =
     \<lparr>CanonicalHashes =
        canonical_chain 0 [hash_of_byte 0x11, hash_of_byte 0xaa] @ canonical_chain 3 [hash_of_byte 0xcc],
      HeaderNumbers = [],
      SyncStageProgress = [(kBlockBodiesKey, 3)]\<rparr>"

definition short_hash_db :: db_state where
  "short_hash_db =
     \<lparr>CanonicalHashes =
        canonical_chain 0 [hash_of_byte 0x11, hash_of_byte 0xaa] @ canonical_chain 2 [replicate 31 0xbb],
      HeaderNumbers = [],
      SyncStageProgress = [(kBlockBodiesKey, 2)]\<rparr>"

text \<open>
  \<open>full_index\<close>: the inverse index of blocks 0 to 3 of \<open>chain_db\<close>.
  \<open>partial_index_db\<close>: the chain indexed up to block 3, the entry of block 2 missing
  from the index. \<open>genesis_only_db\<close>: a fresh database holding block 0 alone.
  \<open>no_genesis_db\<close>: blocks 1 to 3 are canonical and block 0 is not.
\<close>

definition full_index :: table where
  "full_index = [(hash_of_byte 0x11, block_key 0), (hash_of_byte 0xaa, block_key 1),
                 (hash_of_byte 0xbb, block_key 2), (hash_of_byte 0xcc, block_key 3)]"

definition partial_index_db :: db_state where
  "partial_index_db =
     chain_db [(hash_of_byte 0x11, block_key 0), (hash_of_byte 0xaa, block_key 1),
               (hash_of_byte 0xcc, block_key 3)]
              [(kBlockBodiesKey, 3), (kBlockHashesKey, 3)]"

definition genesis_only_db :: db_state where
  "genesis_only_db =
     \<lparr>CanonicalHashes = canonical_chain 0 [hash_of_byte 0x11],
      HeaderNumbers = [],
      SyncStageProgress = []\<rparr>"

definition no_genesis_db :: "(string \<times> BlockNum) list \<Rightarrow> db_state" where
  "no_genesis_db watermarks =
     \<lparr>CanonicalHashes = canonical_chain 1 [hash_of_byte 0xaa, hash_of_byte 0xbb, hash_of_byte 0xcc],
      HeaderNumbers = [],
      SyncStageProgress = watermarks\<rparr>"

section \<open>Hexadecimal text and hashes: proofs\<close>

lemma memcpy_length: "length (memcpy dst off src n) = length dst"
  by (induction n) auto

lemma memcpy_window:
  "off + n \<le> length dst \<Longrightarrow> n \<le> length src \<Longrightarrow>
   memcpy dst off src n = take off dst @ take n src @ drop (off + n) dst"
proof (induction n)
  case 0
  then show ?case by simp
next
  case (Suc n)
  have len: "length (take off dst @ take n src) = off + n"
    using Suc.prems by simp
  have "memcpy dst off src (Suc n)
        = (take off dst @ take n src @ drop (off + n) dst)[off + n := src ! n]"
    using Suc by simp
  also have "\<dots> = (take off dst @ take n src) @ (drop (off + n) dst)[0 := src ! n]"
    using len by (metis append.assoc list_update_append diff_self_eq_0 less_irrefl)
  also have "drop (off + n) dst = dst ! (off + n) # drop (Suc (off + n)) dst"
    using Suc.prems by (simp add: Cons_nth_drop_Suc)
  finally show ?case
    using Suc.prems by (simp add: take_Suc_conv_app_nth)
qed

lemma high_nibble_less: "unat (drop_bit 4 (b :: byte)) < 16"
proof -
  have "unat b < 256"
    using unsigned_less [of b, where 'a = nat] by simp
  then show ?thesis
    by (simp add: drop_bit_eq_div unat_div)
qed

lemma low_nibble_less: "unat ((b :: byte) AND 15) < 16"
proof -
  have "unat (b AND 15) \<le> unat (15 :: byte)"
    by (rule word_and_le1 [THEN word_le_nat_alt [THEN iffD1]])
  then show ?thesis by simp
qed

lemma nibbles_join: "16 * drop_bit 4 (b :: byte) + (b AND 15) = b"
proof -
  have "b AND 15 = take_bit 4 b"
    by (simp add: take_bit_eq_mask mask_eq_exp_minus_1)
  then have lo: "b AND 15 = b mod 16"
    by (simp add: take_bit_eq_mod)
  have hi: "drop_bit 4 b = b div 16"
    by (simp add: drop_bit_eq_div)
  show ?thesis
    unfolding hi lo by (rule mult_div_mod_eq)
qed

lemma hex_digits_decode:
  "\<forall>n \<in> set [0..<16]. hex_char_to_int (hex_digit_lower n) = Inr n"
  by code_simp

lemma hex_digits_not_x:
  "\<forall>n \<in> set [0..<16]. hex_digit_lower n \<noteq> CHR ''x'' \<and> hex_digit_lower n \<noteq> CHR ''X''"
  by code_simp

lemma hex_char_of_digit: "n < 16 \<Longrightarrow> hex_char_to_int (hex_digit_lower n) = Inr n"
  using hex_digits_decode by simp

lemma hex_digit_not_x:
  "n < 16 \<Longrightarrow> hex_digit_lower n \<noteq> CHR ''x'' \<and> hex_digit_lower n \<noteq> CHR ''X''"
  using hex_digits_not_x by simp

lemma unhex_hex_lower: "unhex (hex_lower bs) = Inr bs"
  by (induction bs) (simp_all add: hex_char_of_digit high_nibble_less low_nibble_less nibbles_join)

lemma from_hex_hex_lower: "from_hex (hex_lower bs) = Inr bs"
proof (cases bs)
  case Nil
  then show ?thesis by (simp add: from_hex_def)
next
  case (Cons b bs')
  have "hex_lower bs ! 1 = hex_digit_lower (unat (b AND 15))"
    using Cons by simp
  then have "hex_lower bs ! 1 \<noteq> CHR ''x'' \<and> hex_lower bs ! 1 \<noteq> CHR ''X''"
    using hex_digit_not_x [OF low_nibble_less, of b] by simp
  then show ?thesis
    using unhex_hex_lower [of bs] by (simp add: from_hex_def)
qed

text \<open>
  C9. Hex round trip: for every byte string \<open>b\<close>, \<open>from_hex (to_hex b)\<close> gives back \<open>b\<close>,
  and \<open>from_hex\<close> strips a leading \<open>0x\<close> or \<open>0X\<close>, so that prefixing \<open>to_hex b\<close> with
  either gives back \<open>b\<close> as well.
\<close>

theorem hex_round_trip:
  "from_hex (to_hex b) = Inr b
   \<and> from_hex (''0x'' @ to_hex b) = Inr b
   \<and> from_hex (''0X'' @ to_hex b) = Inr b"
proof -
  have plain: "from_hex (to_hex b) = Inr b"
    by (simp add: to_hex_def from_hex_hex_lower)
  have lower: "from_hex (''0x'' @ to_hex b) = Inr b"
    by (simp add: from_hex_def to_hex_def unhex_hex_lower)
  have upper: "from_hex (''0X'' @ to_hex b) = Inr b"
    by (simp add: from_hex_def to_hex_def unhex_hex_lower)
  from plain lower upper show ?thesis by simp
qed

text \<open>
  C10. For every byte string \<open>b\<close>, \<open>to_hash b\<close> has 32 bytes: the first
  \<open>min (length b) 32\<close> bytes of \<open>b\<close>, right-aligned, behind \<open>32 - min (length b) 32\<close>
  zero bytes. A shorter input is padded with zeros on the left, a longer one is cut to
  its first 32 bytes.
\<close>

theorem to_hash_right_aligned:
  "length (to_hash b) = 32
   \<and> to_hash b = replicate (32 - min (length b) 32) 0 @ take (min (length b) 32) b"
proof -
  let ?n = "min (length b) 32"
  have "memcpy (replicate 32 0) (32 - ?n) b ?n
        = take (32 - ?n) (replicate 32 0) @ take ?n b @ drop (32 - ?n + ?n) (replicate 32 0)"
    by (rule memcpy_window) simp_all
  then have eq: "to_hash b = replicate (32 - ?n) 0 @ take ?n b"
    by (simp add: to_hash_def kHashLength_def Let_def min_def)
  have "length (to_hash b) = 32"
    by (simp add: to_hash_def kHashLength_def Let_def memcpy_length)
  with eq show ?thesis by simp
qed


section \<open>The default prune\<close>

text \<open>
  C7. For every stage that does not override \<open>prune\<close>, and so for the BlockHashes stage
  (constructed with \<open>has_pruning = false\<close>), \<open>prune\<close> returns \<open>kSuccess\<close> for any
  transaction manager and context and leaves both as they were: nothing is written.
\<close>

theorem default_prune_succeeds:
  "(prune_override stage = None \<longrightarrow> prune stage txn_mgr context = (kSuccess, txn_mgr, context))
   \<and> prune (StageBlockHashes ord) txn_mgr context = (kSuccess, txn_mgr, context)
   \<and> \<not> has_pruning (StageBlockHashes ord)"
  by (simp add: prune_def IStage_prune_def StageBlockHashes_def)

theorem default_prune_succeeds_witness:
  "prune_override (StageBlockHashes 1) = None
   \<and> prune (StageBlockHashes 1)
        (opened_on \<lparr>CanonicalHashes = [], HeaderNumbers = [], SyncStageProgress = []\<rparr>)
        (cleared_context None)
      = (kSuccess,
         opened_on \<lparr>CanonicalHashes = [], HeaderNumbers = [], SyncStageProgress = []\<rparr>,
         cleared_context None)"
  using default_prune_succeeds
    [of "StageBlockHashes 1"
        "opened_on \<lparr>CanonicalHashes = [], HeaderNumbers = [], SyncStageProgress = []\<rparr>"
        "cleared_context None" 1]
  by (simp add: StageBlockHashes_def)

section \<open>RLP integers: leading zeros\<close>

lemma read_uint64_leading_zero:
  "0 < len \<Longrightarrow> len \<le> 8 \<Longrightarrow>
   read_uint64 (0 # rest) len = Inl (DecodingError ''leading zero(s)'')"
  by (simp add: read_uint64_def peek_def)

lemma unat_payload_length:
  fixes n :: "64 word"
  assumes "n \<noteq> 0" and "n \<le> 8"
  shows "0 < unat n \<and> unat n \<le> 8"
  using assms by (simp add: word_le_nat_alt unat_gt_0)

text \<open>
  C8, as the code has it. A stream whose header \<open>decode_header\<close> accepts as a string
  header with a payload of 1 to 8 bytes (\<open>uint64\<close>) or 1 to 32 bytes (\<open>uint256\<close>) and
  whose first payload byte is zero fails with \<open>DecodingError "leading zero(s)"\<close>. The
  stream \<open>0x81 0x00\<close> is refused before that, by \<open>decode_header\<close>, with
  \<open>DecodingError "non-canonical single byte"\<close>. A payload of length zero (the header
  \<open>0x80\<close>) decodes to 0.
\<close>

theorem rlp_uint_leading_zero:
  "(decode_header s = Inr (h, 0 # rest) \<and> \<not> list h
      \<and> payload_length h \<noteq> 0 \<and> payload_length h \<le> 8
      \<longrightarrow> decode_uint64 s = Inl (DecodingError ''leading zero(s)''))
   \<and> (decode_header s' = Inr (h', 0 # rest') \<and> \<not> list h'
      \<and> payload_length h' \<noteq> 0 \<and> payload_length h' \<le> 32
      \<longrightarrow> decode_uint256 s' = Inl (DecodingError ''leading zero(s)''))
   \<and> decode_uint64 (0x81 # 0 # rest) = Inl (DecodingError ''non-canonical single byte'')
   \<and> decode_uint256 (0x81 # 0 # rest) = Inl (DecodingError ''non-canonical single byte'')
   \<and> (decode_header z = Inr (hz, restz) \<and> \<not> list hz \<and> payload_length hz = 0
      \<longrightarrow> decode_uint64 z = Inr (0, restz) \<and> decode_uint256 z = Inr (0, restz))
   \<and> decode_uint64 (0x80 # rest) = Inr (0, rest)
   \<and> decode_uint256 (0x80 # rest) = Inr (0, rest)"
proof -
  have u64: "decode_uint64 s = Inl (DecodingError ''leading zero(s)'')"
    if "decode_header s = Inr (h, 0 # rest)" "\<not> list h"
       "payload_length h \<noteq> 0" "payload_length h \<le> 8"
    using that unat_payload_length [of "payload_length h"]
    by (simp add: decode_uint64_def read_uint64_leading_zero)
  have u256: "decode_uint256 s' = Inl (DecodingError ''leading zero(s)'')"
    if "decode_header s' = Inr (h', 0 # rest')" "\<not> list h'"
       "payload_length h' \<noteq> 0" "payload_length h' \<le> 32"
    using that by (simp add: decode_uint256_def peek_def)
  have single: "decode_header (0x81 # 0 # rest) = Inl (DecodingError ''non-canonical single byte'')"
    by (simp add: decode_header_def peek_def)
  have empty: "decode_uint64 z = Inr (0, restz) \<and> decode_uint256 z = Inr (0, restz)"
    if "decode_header z = Inr (hz, restz)" "\<not> list hz" "payload_length hz = 0"
    using that by (simp add: decode_uint64_def decode_uint256_def read_uint64_def)
  have x80: "decode_header (0x80 # rest) = Inr (\<lparr>list = False, payload_length = 0\<rparr>, rest)"
    by (simp add: decode_header_def)
  show ?thesis
    using u64 u256 single empty x80
    by (simp add: decode_uint64_def decode_uint256_def read_uint64_def)
qed

theorem rlp_uint_leading_zero_witness:
  "decode_header [0x82, 0, 4] = Inr (\<lparr>list = False, payload_length = 2\<rparr>, [0, 4])
   \<and> decode_uint64 [0x82, 0, 4] = Inl (DecodingError ''leading zero(s)'')
   \<and> decode_header [0xA0, 0, 4] = Inr (\<lparr>list = False, payload_length = 32\<rparr>, [0, 4])
   \<and> decode_uint256 [0xA0, 0, 4] = Inl (DecodingError ''leading zero(s)'')
   \<and> decode_header [0x80, 7] = Inr (\<lparr>list = False, payload_length = 0\<rparr>, [7])
   \<and> decode_uint64 [0x80, 7] = Inr (0, [7])
   \<and> decode_uint256 [0x80, 7] = Inr (0, [7])"
  using rlp_uint_leading_zero
    [of "[0x82, 0, 4]" "\<lparr>list = False, payload_length = 2\<rparr>" "[4]"
        "[0xA0, 0, 4]" "\<lparr>list = False, payload_length = 32\<rparr>" "[4]"
        "[0x80, 7]" "\<lparr>list = False, payload_length = 0\<rparr>" "[7]"]
  by (simp add: decode_header_def)

text \<open>
  The stream \<open>0x81 0x00\<close> has a payload of one byte, which is zero, and is not refused
  with \<open>"leading zero(s)"\<close>.
\<close>

theorem rlp_single_zero_byte_counterexample:
  "decode_uint64 [0x81, 0] = Inl (DecodingError ''non-canonical single byte'')
   \<and> decode_uint64 [0x81, 0] \<noteq> Inl (DecodingError ''leading zero(s)'')
   \<and> decode_uint256 [0x81, 0] = Inl (DecodingError ''non-canonical single byte'')
   \<and> decode_uint256 [0x81, 0] \<noteq> Inl (DecodingError ''leading zero(s)'')"
  by (simp add: decode_uint64_def decode_uint256_def decode_header_def peek_def)


section \<open>The BlockHashes stage: reading the watermarks\<close>

lemma get_progress_cases:
  obtains (hit) p where "map_of (progresses context) key = Some p"
      "get_progress context tx key = (p, context)"
  | (miss) "map_of (progresses context) key = None"
      "get_progress context tx key =
         (read_stage_progress tx key,
          context\<lparr>progresses := AList.update key (read_stage_progress tx key) (progresses context)\<rparr>)"
  by (cases "map_of (progresses context) key") (auto simp: get_progress_def Let_def)

lemma get_progress_cached:
  assumes "get_progress context tx key = (p, context1)"
  shows "map_of (progresses context1) key = Some p"
    and "unwind_height context1 = unwind_height context"
    and "get_progress context1 tx' key = (p, context1)"
    and "key' \<noteq> key \<Longrightarrow> fst (get_progress context1 tx key') = fst (get_progress context tx key')"
proof -
  show c: "map_of (progresses context1) key = Some p"
    using assms by (cases rule: get_progress_cases [of "context" key tx]) (auto simp: update_conv')
  show "unwind_height context1 = unwind_height context"
    using assms by (cases rule: get_progress_cases [of "context" key tx]) auto
  show "get_progress context1 tx' key = (p, context1)"
    using c by (simp add: get_progress_def)
  show "fst (get_progress context1 tx key') = fst (get_progress context tx key')" if "key' \<noteq> key"
    using assms that
    by (cases rule: get_progress_cases [of "context" key tx])
       (auto simp: get_progress_def update_conv' Let_def split: option.splits)
qed

lemma get_progress_keeps_progress:
  assumes "get_progress context tx key = (p, context1)"
  shows "fst (get_progress context1 tx key') = fst (get_progress context tx key')"
proof (cases "key' = key")
  case True
  then show ?thesis using get_progress_cached(3) [OF assms, of tx] assms by simp
next
  case False
  then show ?thesis using get_progress_cached(4) [OF assms] by simp
qed

lemma forward_reads:
  obtains pb c1 c2 where
    "get_progress context (txn tx_mgr) kBlockBodiesKey = (pb, c1)"
    "get_progress c1 (txn tx_mgr) (stage_key stage) = (progress_of context tx_mgr (stage_key stage), c2)"
    "pb = progress_of context tx_mgr kBlockBodiesKey"
    "\<And>k. progress_of c2 tx_mgr k = progress_of context tx_mgr k"
    "unwind_height c2 = unwind_height context"
proof -
  obtain pb c1 where 1: "get_progress context (txn tx_mgr) kBlockBodiesKey = (pb, c1)"
    by (cases "get_progress context (txn tx_mgr) kBlockBodiesKey")
  obtain p c2 where 2: "get_progress c1 (txn tx_mgr) (stage_key stage) = (p, c2)"
    by (cases "get_progress c1 (txn tx_mgr) (stage_key stage)")
  have p: "p = progress_of context tx_mgr (stage_key stage)"
    using get_progress_keeps_progress [OF 1, of "stage_key stage"] 2 by (simp add: progress_of_def)
  have k: "progress_of c2 tx_mgr k = progress_of context tx_mgr k" for k
    using get_progress_keeps_progress [OF 1, of k] get_progress_keeps_progress [OF 2, of k]
    by (simp add: progress_of_def)
  have u: "unwind_height c2 = unwind_height context"
    using get_progress_cached(2) [OF 1] get_progress_cached(2) [OF 2] by simp
  show thesis using that [OF 1 _ _ k u] 2 p 1 by (simp add: progress_of_def)
qed


section \<open>The BlockHashes stage: the loop of forward\<close>

lemma forward_loop_prefix:
  "in_sequence pre e \<Longrightarrow>
   \<exists>bn' coll'. forward_loop (pre @ cur) e bn coll = forward_loop cur (e + of_nat (length pre)) bn' coll'"
proof (induction pre arbitrary: e bn coll)
  case Nil
  then show ?case by auto
next
  case (Cons a pre)
  obtain k v where a: "a = (k, v)" by (cases a)
  from Cons.prems a have h: "load_big_u64 k = e" "length v = kHashLength" "in_sequence pre (e + 1)"
    by auto
  from Cons.IH [OF h(3), of e "collect coll (v, k)"]
  obtain bn' coll' where "forward_loop (pre @ cur) (e + 1) e (collect coll (v, k))
      = forward_loop cur (e + 1 + of_nat (length pre)) bn' coll'" by blast
  moreover have "e + 1 + of_nat (length pre) = e + of_nat (length (a # pre))" by simp
  ultimately have "forward_loop (pre @ cur) (e + 1) e (collect coll (v, k))
      = forward_loop cur (e + of_nat (length (a # pre))) bn' coll'" by simp
  then show ?case using a h by auto
qed

lemma forward_loop_result:
  "forward_loop cur e bn coll = Inr (bn', coll') \<Longrightarrow>
   (cur = [] \<and> bn' = bn \<and> coll' = coll)
   \<or> (cur \<noteq> [] \<and> bn' + 1 = e + of_nat (length cur) \<and> coll' \<noteq> [])"
proof (induction cur arbitrary: e bn coll)
  case Nil
  then show ?case by simp
next
  case (Cons a cur)
  obtain k v where a: "a = (k, v)" by (cases a)
  from Cons.prems a have h: "load_big_u64 k = e" "length v = kHashLength"
     and r: "forward_loop cur (e + 1) e (collect coll (v, k)) = Inr (bn', coll')"
    by (auto simp: Let_def split: if_splits)
  from Cons.IH [OF r] show ?case
    by (auto simp: collect_def ac_simps)
qed

lemma forward_loop_collects:
  "in_sequence cur e \<Longrightarrow>
   forward_loop cur e bn coll
     = Inr (if cur = [] then bn else e + of_nat (length cur) - 1, coll @ map (\<lambda>(k, v). (v, k)) cur)"
proof (induction cur arbitrary: e bn coll)
  case Nil
  then show ?case by simp
next
  case (Cons a cur)
  obtain k v where a: "a = (k, v)" by (cases a)
  from Cons.prems a have h: "load_big_u64 k = e" "length v = kHashLength" "in_sequence cur (e + 1)"
    by auto
  show ?case using Cons.IH [OF h(3), of e "collect coll (v, k)"] a h
    by (auto simp: collect_def)
qed

text \<open>
  C3. \<open>forward\<close> walks \<open>CanonicalHashes\<close> (whose keys have eight bytes) from the key
  of its first block. When it comes to an entry whose key, decoded big-endian, is not the
  expected next block number (the entries before it having passed both checks), it
  returns \<open>kBadChainSequence\<close>; the transaction manager is returned as it was, so nothing
  is written or committed, and every watermark reads as before.
\<close>

theorem forward_out_of_sequence:
  assumes "cursor_find (CanonicalHashes (txn tx_mgr))
             (block_key (first_block (progress_of context tx_mgr kBlockHashesKey)))
           = pre @ (key, val) # rest"
      and "in_sequence pre (first_block (progress_of context tx_mgr kBlockHashesKey))"
      and "load_big_u64 key
           \<noteq> first_block (progress_of context tx_mgr kBlockHashesKey) + of_nat (length pre)"
      and "eight_byte_keys (CanonicalHashes (txn tx_mgr))"
  shows "\<exists>context'.
           StageBlockHashes_forward (StageBlockHashes ord) tx_mgr context
             = (kBadChainSequence, tx_mgr, context')
           \<and> (\<forall>k. progress_of context' tx_mgr k = progress_of context tx_mgr k)"
proof -
  let ?st = "StageBlockHashes ord"
  let ?e = "first_block (progress_of context tx_mgr kBlockHashesKey)"
  have key: "stage_key ?st = kBlockHashesKey" by (simp add: StageBlockHashes_def)
  obtain pb c1 c2 where r:
    "get_progress context (txn tx_mgr) kBlockBodiesKey = (pb, c1)"
    "get_progress c1 (txn tx_mgr) (stage_key ?st) = (progress_of context tx_mgr (stage_key ?st), c2)"
    "\<And>k. progress_of c2 tx_mgr k = progress_of context tx_mgr k"
    using forward_reads [of "context" tx_mgr ?st] by metis
  obtain bn' coll' where
    "forward_loop (pre @ (key, val) # rest) ?e 0 []
       = forward_loop ((key, val) # rest) (?e + of_nat (length pre)) bn' coll'"
    using forward_loop_prefix [OF assms(2)] by blast
  then have "forward_loop (pre @ (key, val) # rest) ?e 0 [] = Inl kBadChainSequence"
    using assms(3) by simp
  then have "StageBlockHashes_forward ?st tx_mgr context = (kBadChainSequence, tx_mgr, c2)"
    using r(1,2) assms(1) unfolding key
    by (simp add: StageBlockHashes_forward_def first_block_def key)
  with r(3) show ?thesis by blast
qed


theorem forward_out_of_sequence_witness:
  "cursor_find (CanonicalHashes (txn (opened_on gap_db)))
     (block_key (first_block (progress_of (cleared_context None) (opened_on gap_db) kBlockHashesKey)))
     = canonical_chain 0 [hash_of_byte 0x11, hash_of_byte 0xaa] @ (block_key 3, hash_of_byte 0xcc) # []
   \<and> in_sequence (canonical_chain 0 [hash_of_byte 0x11, hash_of_byte 0xaa])
        (first_block (progress_of (cleared_context None) (opened_on gap_db) kBlockHashesKey))
   \<and> load_big_u64 (block_key 3)
        \<noteq> first_block (progress_of (cleared_context None) (opened_on gap_db) kBlockHashesKey)
          + of_nat (length (canonical_chain 0 [hash_of_byte 0x11, hash_of_byte 0xaa]))
   \<and> eight_byte_keys (CanonicalHashes (txn (opened_on gap_db)))
   \<and> fst (StageBlockHashes_forward (StageBlockHashes 1) (opened_on gap_db) (cleared_context None))
        = kBadChainSequence
   \<and> fst (snd (StageBlockHashes_forward (StageBlockHashes 1) (opened_on gap_db) (cleared_context None)))
        = opened_on gap_db"
proof -
  have h1: "cursor_find (CanonicalHashes (txn (opened_on gap_db)))
     (block_key (first_block (progress_of (cleared_context None) (opened_on gap_db) kBlockHashesKey)))
     = canonical_chain 0 [hash_of_byte 0x11, hash_of_byte 0xaa] @ (block_key 3, hash_of_byte 0xcc) # []"
    by code_simp
  have h2: "in_sequence (canonical_chain 0 [hash_of_byte 0x11, hash_of_byte 0xaa])
        (first_block (progress_of (cleared_context None) (opened_on gap_db) kBlockHashesKey))"
    by code_simp
  have h3: "load_big_u64 (block_key 3)
        \<noteq> first_block (progress_of (cleared_context None) (opened_on gap_db) kBlockHashesKey)
          + of_nat (length (canonical_chain 0 [hash_of_byte 0x11, hash_of_byte 0xaa]))"
    by code_simp
  have h4: "eight_byte_keys (CanonicalHashes (txn (opened_on gap_db)))"
    by code_simp
  from forward_out_of_sequence [OF h1 h2 h3 h4, of 1] h1 h2 h3 h4 show ?thesis by auto
qed

text \<open>
  C4. When \<open>forward\<close> comes to an entry of \<open>CanonicalHashes\<close> (whose keys have eight
  bytes) whose key is the expected block number and whose value does not have 32 bytes
  (31, say), the entries before it having passed both checks, it returns
  \<open>kBadBlockHash\<close>; the transaction manager is returned as it was, so nothing is written
  or committed, and every watermark reads as before.
\<close>

theorem forward_bad_hash:
  assumes "cursor_find (CanonicalHashes (txn tx_mgr))
             (block_key (first_block (progress_of context tx_mgr kBlockHashesKey)))
           = pre @ (key, val) # rest"
      and "in_sequence pre (first_block (progress_of context tx_mgr kBlockHashesKey))"
      and "load_big_u64 key
           = first_block (progress_of context tx_mgr kBlockHashesKey) + of_nat (length pre)"
      and "length val \<noteq> kHashLength"
      and "eight_byte_keys (CanonicalHashes (txn tx_mgr))"
  shows "\<exists>context'.
           StageBlockHashes_forward (StageBlockHashes ord) tx_mgr context
             = (kBadBlockHash, tx_mgr, context')
           \<and> (\<forall>k. progress_of context' tx_mgr k = progress_of context tx_mgr k)"
proof -
  let ?st = "StageBlockHashes ord"
  let ?e = "first_block (progress_of context tx_mgr kBlockHashesKey)"
  have key: "stage_key ?st = kBlockHashesKey" by (simp add: StageBlockHashes_def)
  obtain pb c1 c2 where r:
    "get_progress context (txn tx_mgr) kBlockBodiesKey = (pb, c1)"
    "get_progress c1 (txn tx_mgr) (stage_key ?st) = (progress_of context tx_mgr (stage_key ?st), c2)"
    "\<And>k. progress_of c2 tx_mgr k = progress_of context tx_mgr k"
    using forward_reads [of "context" tx_mgr ?st] by metis
  obtain bn' coll' where
    "forward_loop (pre @ (key, val) # rest) ?e 0 []
       = forward_loop ((key, val) # rest) (?e + of_nat (length pre)) bn' coll'"
    using forward_loop_prefix [OF assms(2)] by blast
  then have "forward_loop (pre @ (key, val) # rest) ?e 0 [] = Inl kBadBlockHash"
    using assms(3,4) by simp
  then have "StageBlockHashes_forward ?st tx_mgr context = (kBadBlockHash, tx_mgr, c2)"
    using r(1,2) assms(1) unfolding key
    by (simp add: StageBlockHashes_forward_def first_block_def key)
  with r(3) show ?thesis by blast
qed


theorem forward_bad_hash_witness:
  "cursor_find (CanonicalHashes (txn (opened_on short_hash_db)))
     (block_key (first_block
        (progress_of (cleared_context None) (opened_on short_hash_db) kBlockHashesKey)))
     = canonical_chain 0 [hash_of_byte 0x11, hash_of_byte 0xaa] @ (block_key 2, replicate 31 0xbb) # []
   \<and> in_sequence (canonical_chain 0 [hash_of_byte 0x11, hash_of_byte 0xaa])
        (first_block (progress_of (cleared_context None) (opened_on short_hash_db) kBlockHashesKey))
   \<and> load_big_u64 (block_key 2)
        = first_block (progress_of (cleared_context None) (opened_on short_hash_db) kBlockHashesKey)
          + of_nat (length (canonical_chain 0 [hash_of_byte 0x11, hash_of_byte 0xaa]))
   \<and> length (replicate 31 (0xbb :: byte)) \<noteq> kHashLength
   \<and> eight_byte_keys (CanonicalHashes (txn (opened_on short_hash_db)))
   \<and> fst (StageBlockHashes_forward (StageBlockHashes 1) (opened_on short_hash_db)
             (cleared_context None))
        = kBadBlockHash
   \<and> fst (snd (StageBlockHashes_forward (StageBlockHashes 1) (opened_on short_hash_db)
                  (cleared_context None)))
        = opened_on short_hash_db"
proof -
  have h1: "cursor_find (CanonicalHashes (txn (opened_on short_hash_db)))
     (block_key (first_block
        (progress_of (cleared_context None) (opened_on short_hash_db) kBlockHashesKey)))
     = canonical_chain 0 [hash_of_byte 0x11, hash_of_byte 0xaa] @ (block_key 2, replicate 31 0xbb) # []"
    by code_simp
  have h2: "in_sequence (canonical_chain 0 [hash_of_byte 0x11, hash_of_byte 0xaa])
        (first_block (progress_of (cleared_context None) (opened_on short_hash_db) kBlockHashesKey))"
    by code_simp
  have h3: "load_big_u64 (block_key 2)
        = first_block (progress_of (cleared_context None) (opened_on short_hash_db) kBlockHashesKey)
          + of_nat (length (canonical_chain 0 [hash_of_byte 0x11, hash_of_byte 0xaa]))"
    by code_simp
  have h4: "length (replicate 31 (0xbb :: byte)) \<noteq> kHashLength"
    by (simp add: kHashLength_def)
  have h5: "eight_byte_keys (CanonicalHashes (txn (opened_on short_hash_db)))"
    by code_simp
  from forward_bad_hash [OF h1 h2 h3 h4 h5, of 1] h1 h2 h3 h4 h5 show ?thesis by auto
qed




section \<open>The BlockHashes stage: unwind\<close>

lemma unwind_loop_failure:
  "unwind_loop cur e target = Inl (res, target') \<Longrightarrow> res \<noteq> kSuccess"
  by (induction cur e target rule: unwind_loop.induct) (auto simp: Let_def split: if_splits)

lemma unwind_loop_in_sequence:
  "in_sequence cur e \<Longrightarrow> \<exists>target'. unwind_loop cur e target = Inr target'"
  by (induction cur e target rule: unwind_loop.induct) (auto simp: Let_def)

lemma unwind_early:
  assumes "get_progress context (txn tx_mgr) (stage_key stage) = (p, c1)"
      and "needs_unwind c1 p 0 = (False, h)"
  shows "StageBlockHashes_unwind stage tx_mgr context = (kSuccess, tx_mgr, c1)"
  using assms by (simp add: StageBlockHashes_unwind_def)

lemma unwind_needed:
  assumes g: "get_progress context (txn tx_mgr) (stage_key stage) = (p, c1)"
      and n: "needs_unwind c1 p 0 = (True, h)"
      and r: "StageBlockHashes_unwind stage tx_mgr context = (kSuccess, tx_mgr', context')"
  shows "context' = c1\<lparr>progresses := AList.update (stage_key stage) h (progresses c1)\<rparr>"
proof -
  let ?key = "stage_key stage"
  let ?e = "if h \<noteq> 0 then h + 1 else h"
  let ?loop = "unwind_loop (cursor_find (CanonicalHashes (txn tx_mgr)) (block_key ?e)) ?e
                 (HeaderNumbers (txn tx_mgr))"
  have unfold: "StageBlockHashes_unwind stage tx_mgr context =
     (case ?loop of
        Inl (res, t') \<Rightarrow> (res, tx_mgr\<lparr>txn := (txn tx_mgr)\<lparr>HeaderNumbers := t'\<rparr>\<rparr>, c1)
      | Inr t' \<Rightarrow>
          (kSuccess,
           commit (tx_mgr\<lparr>txn := write_stage_progress ((txn tx_mgr)\<lparr>HeaderNumbers := t'\<rparr>) ?key h\<rparr>),
           c1\<lparr>progresses := AList.update ?key h (progresses c1)\<rparr>))"
    using g n
    by (simp add: StageBlockHashes_unwind_def update_progress_def Let_def
             split: sum.splits prod.splits)
  show ?thesis
  proof (cases ?loop)
    case (Inl a)
    obtain res t where a: "a = (res, t)" by (cases a)
    then have "res \<noteq> kSuccess" using unwind_loop_failure Inl by blast
    then show ?thesis using unfold r Inl a by simp
  next
    case (Inr t')
    then show ?thesis using unfold r by simp
  qed
qed

lemma unwind_twice:
  assumes "StageBlockHashes_unwind stage tx_mgr context = (kSuccess, tx_mgr', context')"
  shows "StageBlockHashes_unwind stage tx_mgr' context' = (kSuccess, tx_mgr', context')"
proof -
  let ?key = "stage_key stage"
  obtain p c1 where g: "get_progress context (txn tx_mgr) ?key = (p, c1)"
    by (cases "get_progress context (txn tx_mgr) ?key")
  obtain need h where n: "needs_unwind c1 p 0 = (need, h)"
    by (cases "needs_unwind c1 p 0")
  show ?thesis
  proof (cases need)
    case False
    then have "StageBlockHashes_unwind stage tx_mgr context = (kSuccess, tx_mgr, c1)"
      using g n by (simp add: unwind_early)
    then have eq: "tx_mgr' = tx_mgr" "context' = c1" using assms by simp_all
    have "get_progress c1 (txn tx_mgr) ?key = (p, c1)"
      using get_progress_cached(3) [OF g] .
    then show ?thesis using n False unfolding eq by (simp add: unwind_early)
  next
    case True
    then have uh: "unwind_height c1 = Some h"
      using n by (auto simp: needs_unwind_def split: option.splits if_splits)
    have c': "context' = c1\<lparr>progresses := AList.update ?key h (progresses c1)\<rparr>"
      using unwind_needed [OF g _ assms] n True by simp
    have "map_of (progresses context') ?key = Some h"
      unfolding c' by (simp add: update_conv')
    then have g': "get_progress context' (txn tx_mgr') ?key = (h, context')"
      by (simp add: get_progress_def)
    have "unwind_height context' = Some h" unfolding c' using uh by simp
    then have "needs_unwind context' h 0 = (False, 0)"
      by (simp add: needs_unwind_def)
    then show ?thesis using g' by (simp add: unwind_early)
  qed
qed

lemma unwind_reaches_height:
  assumes "StageBlockHashes_unwind stage tx_mgr context = (kSuccess, tx_mgr', context')"
      and "unwind_height context = Some h"
      and "h < progress_of context tx_mgr (stage_key stage)"
  shows "progress_of context' tx_mgr' (stage_key stage) = h \<and> unwind_height context' = Some h"
proof -
  let ?key = "stage_key stage"
  obtain p c1 where g: "get_progress context (txn tx_mgr) ?key = (p, c1)"
    by (cases "get_progress context (txn tx_mgr) ?key")
  have p: "p = progress_of context tx_mgr ?key" using g by (simp add: progress_of_def)
  have uh: "unwind_height c1 = Some h" using get_progress_cached(2) [OF g] assms(2) by simp
  have n: "needs_unwind c1 p 0 = (True, h)"
    using uh assms(3) p by (simp add: needs_unwind_def not_le)
  have "context' = c1\<lparr>progresses := AList.update ?key h (progresses c1)\<rparr>"
    using unwind_needed [OF g n assms(1)] .
  then show ?thesis using uh
    by (simp add: progress_of_def get_progress_def update_conv')
qed

lemma unwind_succeeds_in_sequence:
  assumes "unwind_height context = Some h"
      and "h < progress_of context tx_mgr (stage_key stage)"
      and "in_sequence (cursor_find (CanonicalHashes (txn tx_mgr)) (block_key (first_block h)))
             (first_block h)"
  shows "fst (StageBlockHashes_unwind stage tx_mgr context) = kSuccess"
proof -
  let ?key = "stage_key stage"
  obtain p c1 where g: "get_progress context (txn tx_mgr) ?key = (p, c1)"
    by (cases "get_progress context (txn tx_mgr) ?key")
  have p: "p = progress_of context tx_mgr ?key" using g by (simp add: progress_of_def)
  have uh: "unwind_height c1 = Some h" using get_progress_cached(2) [OF g] assms(1) by simp
  have n: "needs_unwind c1 p 0 = (True, h)"
    using uh assms(2) p by (simp add: needs_unwind_def not_le)
  obtain t' where "unwind_loop (cursor_find (CanonicalHashes (txn tx_mgr)) (block_key (first_block h)))
      (first_block h) (HeaderNumbers (txn tx_mgr)) = Inr t'"
    using unwind_loop_in_sequence [OF assms(3)] by blast
  then show ?thesis using g n
    by (simp add: StageBlockHashes_unwind_def first_block_def update_progress_def Let_def split: prod.splits)
qed

text \<open>
  C6. Unwinding is idempotent (the keys of \<open>CanonicalHashes\<close> having eight bytes):
  after \<open>unwind\<close> has returned \<open>kSuccess\<close>, a second call
  returns \<open>kSuccess\<close> and leaves the transaction manager (so \<open>HeaderNumbers\<close> and the
  watermark) and the context as they are. When the first call had to unwind to height
  \<open>h\<close>, the watermark of the stage is \<open>h\<close> afterwards and the unwind height is still
  \<open>h\<close>. An entry missing from \<open>HeaderNumbers\<close> is not fatal: the loop skips it with
  the table unchanged, and \<open>unwind\<close> succeeds whenever the canonical entries above
  \<open>h\<close> pass the two checks, whatever \<open>HeaderNumbers\<close> holds.
\<close>

theorem unwind_idempotent:
  assumes "eight_byte_keys (CanonicalHashes (txn tx_mgr))"
  shows
  "(StageBlockHashes_unwind (StageBlockHashes ord) tx_mgr context = (kSuccess, tx_mgr', context')
      \<longrightarrow> StageBlockHashes_unwind (StageBlockHashes ord) tx_mgr' context'
            = (kSuccess, tx_mgr', context'))
   \<and> (StageBlockHashes_unwind (StageBlockHashes ord) tx_mgr context = (kSuccess, tx_mgr', context')
       \<and> unwind_height context = Some h \<and> h < progress_of context tx_mgr kBlockHashesKey
      \<longrightarrow> progress_of context' tx_mgr' kBlockHashesKey = h \<and> unwind_height context' = Some h)
   \<and> (unwind_height context = Some h \<and> h < progress_of context tx_mgr kBlockHashesKey
       \<and> in_sequence (cursor_find (CanonicalHashes (txn tx_mgr)) (block_key (first_block h)))
            (first_block h)
      \<longrightarrow> fst (StageBlockHashes_unwind (StageBlockHashes ord) tx_mgr context) = kSuccess)
   \<and> (length key = 8 \<and> load_big_u64 key = expected \<and> length val = kHashLength
       \<and> \<not> cursor_seek target val
      \<longrightarrow> unwind_loop ((key, val) # rest) expected target
            = unwind_loop rest (expected + 1) target)"
proof -
  have key: "stage_key (StageBlockHashes ord) = kBlockHashesKey"
    by (simp add: StageBlockHashes_def)
  show ?thesis
    using unwind_twice [of "StageBlockHashes ord" tx_mgr "context" tx_mgr' context']
      unwind_reaches_height [of "StageBlockHashes ord" tx_mgr "context" tx_mgr' context' h]
      unwind_succeeds_in_sequence [of "context" h tx_mgr "StageBlockHashes ord"]
    unfolding key by simp
qed


theorem unwind_idempotent_witness:
  "StageBlockHashes_unwind (StageBlockHashes 1) (opened_on partial_index_db) (cleared_context (Some 1))
     = (kSuccess,
        opened_on (chain_db [(hash_of_byte 0x11, block_key 0), (hash_of_byte 0xaa, block_key 1)]
                            [(kBlockBodiesKey, 3), (kBlockHashesKey, 1)]),
        (cleared_context (Some 1))\<lparr>progresses := [(kBlockHashesKey, 1)]\<rparr>)
   \<and> StageBlockHashes_unwind (StageBlockHashes 1)
        (opened_on (chain_db [(hash_of_byte 0x11, block_key 0), (hash_of_byte 0xaa, block_key 1)]
                            [(kBlockBodiesKey, 3), (kBlockHashesKey, 1)]))
        ((cleared_context (Some 1))\<lparr>progresses := [(kBlockHashesKey, 1)]\<rparr>)
     = (kSuccess,
        opened_on (chain_db [(hash_of_byte 0x11, block_key 0), (hash_of_byte 0xaa, block_key 1)]
                            [(kBlockBodiesKey, 3), (kBlockHashesKey, 1)]),
        (cleared_context (Some 1))\<lparr>progresses := [(kBlockHashesKey, 1)]\<rparr>)
   \<and> unwind_height (cleared_context (Some 1)) = Some 1
   \<and> 1 < progress_of (cleared_context (Some 1)) (opened_on partial_index_db) kBlockHashesKey
   \<and> in_sequence (cursor_find (CanonicalHashes (txn (opened_on partial_index_db)))
                    (block_key (first_block 1))) (first_block 1)
   \<and> eight_byte_keys (CanonicalHashes (txn (opened_on partial_index_db)))
   \<and> length (block_key 2) = 8
   \<and> load_big_u64 (block_key 2) = 2 \<and> length (hash_of_byte 0xbb) = kHashLength
   \<and> \<not> cursor_seek (HeaderNumbers (txn (opened_on partial_index_db))) (hash_of_byte 0xbb)
   \<and> unwind_loop ((block_key 2, hash_of_byte 0xbb) # canonical_chain 3 [hash_of_byte 0xcc]) 2
        (HeaderNumbers (txn (opened_on partial_index_db)))
      = unwind_loop (canonical_chain 3 [hash_of_byte 0xcc]) (2 + 1)
          (HeaderNumbers (txn (opened_on partial_index_db)))"
proof -
  let ?s = "opened_on partial_index_db"
  let ?c = "cleared_context (Some 1)"
  let ?s' = "opened_on (chain_db [(hash_of_byte 0x11, block_key 0), (hash_of_byte 0xaa, block_key 1)]
                            [(kBlockBodiesKey, 3), (kBlockHashesKey, 1)])"
  let ?c' = "(cleared_context (Some 1))\<lparr>progresses := [(kBlockHashesKey, 1)]\<rparr>"
  have h1: "StageBlockHashes_unwind (StageBlockHashes 1) ?s ?c = (kSuccess, ?s', ?c')"
    by code_simp
  have h2: "unwind_height ?c = Some 1" by code_simp
  have h3: "1 < progress_of ?c ?s kBlockHashesKey" by code_simp
  have h4: "in_sequence (cursor_find (CanonicalHashes (txn ?s)) (block_key (first_block 1)))
              (first_block 1)" by code_simp
  have h5: "load_big_u64 (block_key 2) = 2" by code_simp
  have h6: "length (hash_of_byte 0xbb) = kHashLength" by code_simp
  have h7: "\<not> cursor_seek (HeaderNumbers (txn ?s)) (hash_of_byte 0xbb)" by code_simp
  have h0: "eight_byte_keys (CanonicalHashes (txn ?s))" by code_simp
  have h8: "length (block_key 2) = 8" by code_simp
  from unwind_idempotent [OF h0, of 1 ?c ?s' ?c' 1 "block_key 2" 2 "hash_of_byte 0xbb"
      "HeaderNumbers (txn ?s)" "canonical_chain 3 [hash_of_byte 0xcc]"]
    h0 h1 h2 h3 h4 h5 h6 h7 h8
  show ?thesis by simp
qed

section \<open>The BlockHashes stage: loading in append mode\<close>

lemma load_entries_append:
  "sorted_wrt (\<lambda>a b. fst a < fst b) (t @ es) \<Longrightarrow> load_entries es t MDBX_APPEND = Inr (t @ es)"
proof (induction es arbitrary: t)
  case Nil
  then show ?case by simp
next
  case (Cons e es)
  have "t = [] \<or> fst (last t) < fst e"
  proof (cases "t = []")
    case False
    then have "last t \<in> set t" by simp
    then show ?thesis using Cons.prems by (auto simp: sorted_wrt_append)
  qed simp
  then have put: "cursor_put t e MDBX_APPEND = Inr (t @ [e])"
    by (auto simp: cursor_put_def)
  have "sorted_wrt (\<lambda>a b. fst a < fst b) ((t @ [e]) @ es)" using Cons.prems by simp
  from Cons.IH [OF this] put show ?case by simp
qed

lemma sort_strict_keys:
  fixes es :: "Entry list"
  assumes "distinct (map fst es)"
  shows "sorted_wrt (\<lambda>a b. fst a < fst b) (sort es)"
proof -
  have d: "distinct (map fst (sort es))"
    using assms by (simp add: distinct_map)
  have s: "sorted (sort es)" by simp
  show ?thesis
    unfolding sorted_wrt_iff_nth_less
  proof (intro allI impI)
    fix i j assume ij: "i < j" "j < length (sort es)"
    then have "sort es ! i \<le> sort es ! j" using s by (simp add: sorted_iff_nth_mono)
    then have le: "fst (sort es ! i) \<le> fst (sort es ! j)"
      by (cases "sort es ! i"; cases "sort es ! j") (auto simp: less_eq_prod_def)
    have "i < length (map fst (sort es))" "j < length (map fst (sort es))" "i \<noteq> j"
      using ij by simp_all
    then have "map fst (sort es) ! i \<noteq> map fst (sort es) ! j"
      using d nth_eq_iff_index_eq by blast
    then have "fst (sort es ! i) \<noteq> fst (sort es ! j)" using ij by simp
    then show "fst (sort es ! i) < fst (sort es ! j)" using le by simp
  qed
qed

lemma collector_load_append_empty:
  "distinct (map fst collector) \<Longrightarrow> collector_load collector [] MDBX_APPEND = Inr (sort collector)"
  using load_entries_append [of "[]" "sort collector"] sort_strict_keys [of collector]
  by (simp add: collector_load_def)

lemma block_key_values:
  "load_big_u64 (block_key 0) = 0" "load_big_u64 (block_key 1) = 1"
  "load_big_u64 (block_key 2) = 2" "load_big_u64 (block_key 3) = 3"
  by code_simp+

lemma canonical_chain_four:
  "canonical_chain 0 [a, b, c, d]
   = [(block_key 0, a), (block_key 1, b), (block_key 2, c), (block_key 3, d)]"
  by (simp add: canonical_chain_def enumerate_eq_zip upt_rec [of _ "Suc _"] upt_rec [of 0 "numeral _"] )

lemma forward_load_result:
  assumes "collector_load collector (HeaderNumbers (txn tx_mgr)) flags = Inr t'"
  shows "forward_load stage tx_mgr context bn collector flags
         = (kSuccess,
            commit (tx_mgr\<lparr>txn := write_stage_progress ((txn tx_mgr)\<lparr>HeaderNumbers := t'\<rparr>)
                                     (stage_key stage) bn\<rparr>),
            context\<lparr>progresses := AList.update (stage_key stage) bn (progresses context)\<rparr>)"
  using assms by (simp add: forward_load_def update_progress_def)

text \<open>
  C1, as the code has it. \<open>forward\<close> starts at block 0 when the watermark of the stage
  is 0, so the canonical table has to hold block 0 as well. With
  \<open>CanonicalHashes = {0 \<rightarrow> h0, 1 \<rightarrow> 0xaa\<dots>, 2 \<rightarrow> 0xbb\<dots>, 3 \<rightarrow> 0xcc\<dots>}\<close> (all of 32 bytes,
  \<open>h0\<close> different from the other three), \<open>HeaderNumbers\<close> empty, the watermark of
  Bodies 3 and that of BlockHashes 0, \<open>forward\<close> returns \<open>kSuccess\<close>; afterwards
  \<open>HeaderNumbers\<close> holds exactly \<open>{h0 \<rightarrow> 0, 0xaa\<dots> \<rightarrow> 1, 0xbb\<dots> \<rightarrow> 2, 0xcc\<dots> \<rightarrow> 3}\<close>, the
  watermark of BlockHashes is 3, and both are committed.
\<close>

theorem forward_happy_path:
  assumes "length h0 = 32"
      and "h0 \<notin> {hash_of_byte 0xaa, hash_of_byte 0xbb, hash_of_byte 0xcc}"
      and "CanonicalHashes (txn tx_mgr)
           = canonical_chain 0 [h0, hash_of_byte 0xaa, hash_of_byte 0xbb, hash_of_byte 0xcc]"
      and "HeaderNumbers (txn tx_mgr) = []"
      and "progress_of context tx_mgr kBlockBodiesKey = 3"
      and "progress_of context tx_mgr kBlockHashesKey = 0"
  shows "\<exists>tx_mgr' context'.
           StageBlockHashes_forward (StageBlockHashes ord) tx_mgr context
             = (kSuccess, tx_mgr', context')
           \<and> set (HeaderNumbers (txn tx_mgr'))
               = {(h0, block_key 0), (hash_of_byte 0xaa, block_key 1),
                  (hash_of_byte 0xbb, block_key 2), (hash_of_byte 0xcc, block_key 3)}
           \<and> length (HeaderNumbers (txn tx_mgr')) = 4
           \<and> committed tx_mgr' = txn tx_mgr'
           \<and> progress_of context' tx_mgr' kBlockHashesKey = 3
           \<and> read_stage_progress (committed tx_mgr') kBlockHashesKey = 3"
proof -
  let ?st = "StageBlockHashes ord"
  let ?chain = "[(block_key 0, h0), (block_key 1, hash_of_byte 0xaa),
                 (block_key 2, hash_of_byte 0xbb), (block_key 3, hash_of_byte 0xcc)]"
  let ?coll = "[(h0, block_key 0), (hash_of_byte 0xaa, block_key 1),
                (hash_of_byte 0xbb, block_key 2), (hash_of_byte 0xcc, block_key 3)]"
  have key: "stage_key ?st = kBlockHashesKey" by (simp add: StageBlockHashes_def)
  have chain: "CanonicalHashes (txn tx_mgr) = ?chain"
    using assms(3) by (simp add: canonical_chain_four)
  have find: "cursor_find (CanonicalHashes (txn tx_mgr)) (block_key (first_block 0)) = ?chain"
    unfolding chain by (simp add: cursor_find_def first_block_def)
  have seq: "in_sequence ?chain 0"
    using assms(1) by (simp add: block_key_values kHashLength_def hash_of_byte_def)
  have loop: "forward_loop ?chain (first_block 0) 0 [] = Inr (3, ?coll)"
    using forward_loop_collects [OF seq, of 0 "[]"] by (simp add: first_block_def)
  have "distinct (map fst ?coll)"
    using assms(2) by (auto simp: hash_of_byte_def)
  then have "collector_load ?coll [] MDBX_APPEND = Inr (sort ?coll)"
    by (rule collector_load_append_empty)
  moreover have "set (sort ?coll) = set ?coll" by (rule set_sort)
  moreover have "length (sort ?coll) = length ?coll" by (rule length_sort)
  ultimately obtain t' where load: "collector_load ?coll (HeaderNumbers (txn tx_mgr)) MDBX_APPEND = Inr t'"
    and t': "set t' = set ?coll" "length t' = length ?coll"
    using assms(4) by metis
  obtain c2 where c2: "\<forall>k. progress_of c2 tx_mgr k = progress_of context tx_mgr k"
    and fw: "StageBlockHashes_forward ?st tx_mgr context
             = forward_load ?st tx_mgr c2 3 ?coll
                 (if ms_entries (HeaderNumbers (txn tx_mgr)) = 0 then MDBX_APPEND else MDBX_UPSERT)"
  proof -
    obtain pb c1 c2 where r:
      "get_progress context (txn tx_mgr) kBlockBodiesKey = (pb, c1)"
      "get_progress c1 (txn tx_mgr) (stage_key ?st) = (progress_of context tx_mgr (stage_key ?st), c2)"
      "pb = progress_of context tx_mgr kBlockBodiesKey"
      "\<And>k. progress_of c2 tx_mgr k = progress_of context tx_mgr k"
      using forward_reads [of "context" tx_mgr ?st] by metis
    have "StageBlockHashes_forward ?st tx_mgr context
        = forward_load ?st tx_mgr c2 3 ?coll
            (if ms_entries (HeaderNumbers (txn tx_mgr)) = 0 then MDBX_APPEND else MDBX_UPSERT)"
      using r(1,2,3) assms(5,6) find loop unfolding key
      by (simp add: StageBlockHashes_forward_def first_block_def key)
    with r(4) show ?thesis using that by blast
  qed
  let ?tm' = "commit (tx_mgr\<lparr>txn := write_stage_progress ((txn tx_mgr)\<lparr>HeaderNumbers := t'\<rparr>)
                                     kBlockHashesKey 3\<rparr>)"
  let ?c' = "c2\<lparr>progresses := AList.update kBlockHashesKey 3 (progresses c2)\<rparr>"
  have res: "StageBlockHashes_forward ?st tx_mgr context = (kSuccess, ?tm', ?c')"
    using fw forward_load_result [OF load, of ?st c2 3] assms(4)
    by (simp add: ms_entries_def key)
  have hn: "HeaderNumbers (txn ?tm') = t'"
    by (simp add: commit_def write_stage_progress_def)
  have s: "set (HeaderNumbers (txn ?tm')) = set ?coll"
    unfolding hn by (rule t')
  have l: "length (HeaderNumbers (txn ?tm')) = 4"
    unfolding hn using t'(2) by simp
  have c: "committed ?tm' = txn ?tm'" by (simp add: commit_def)
  have p: "progress_of ?c' ?tm' kBlockHashesKey = 3"
    by (simp add: progress_of_def get_progress_def update_conv')
  have d: "read_stage_progress (committed ?tm') kBlockHashesKey = 3"
    by (simp add: commit_def write_stage_progress_def read_stage_progress_def update_conv')
  have "StageBlockHashes_forward ?st tx_mgr context = (kSuccess, ?tm', ?c')
        \<and> set (HeaderNumbers (txn ?tm')) = set ?coll
        \<and> length (HeaderNumbers (txn ?tm')) = 4
        \<and> committed ?tm' = txn ?tm'
        \<and> progress_of ?c' ?tm' kBlockHashesKey = 3
        \<and> read_stage_progress (committed ?tm') kBlockHashesKey = 3"
    using res s l c p d by blast
  then show ?thesis by (simp only: list.set) blast
qed

theorem forward_happy_path_witness:
  "length (hash_of_byte 0x11) = 32
   \<and> hash_of_byte 0x11 \<notin> {hash_of_byte 0xaa, hash_of_byte 0xbb, hash_of_byte 0xcc}
   \<and> CanonicalHashes (txn (opened_on (chain_db [] [(kBlockBodiesKey, 3)])))
      = canonical_chain 0 [hash_of_byte 0x11, hash_of_byte 0xaa, hash_of_byte 0xbb, hash_of_byte 0xcc]
   \<and> HeaderNumbers (txn (opened_on (chain_db [] [(kBlockBodiesKey, 3)]))) = []
   \<and> progress_of (cleared_context None) (opened_on (chain_db [] [(kBlockBodiesKey, 3)]))
        kBlockBodiesKey = 3
   \<and> progress_of (cleared_context None) (opened_on (chain_db [] [(kBlockBodiesKey, 3)]))
        kBlockHashesKey = 0
   \<and> (\<exists>tx_mgr' context'.
         StageBlockHashes_forward (StageBlockHashes 1)
           (opened_on (chain_db [] [(kBlockBodiesKey, 3)])) (cleared_context None)
           = (kSuccess, tx_mgr', context')
         \<and> set (HeaderNumbers (txn tx_mgr'))
             = {(hash_of_byte 0x11, block_key 0), (hash_of_byte 0xaa, block_key 1),
                (hash_of_byte 0xbb, block_key 2), (hash_of_byte 0xcc, block_key 3)}
         \<and> length (HeaderNumbers (txn tx_mgr')) = 4
         \<and> committed tx_mgr' = txn tx_mgr'
         \<and> progress_of context' tx_mgr' kBlockHashesKey = 3
         \<and> read_stage_progress (committed tx_mgr') kBlockHashesKey = 3)"
proof -
  let ?s = "opened_on (chain_db [] [(kBlockBodiesKey, 3)])"
  have h1: "length (hash_of_byte 0x11) = 32" by code_simp
  have h2: "hash_of_byte 0x11 \<notin> {hash_of_byte 0xaa, hash_of_byte 0xbb, hash_of_byte 0xcc}"
    by (simp add: hash_of_byte_def)
  have h3: "CanonicalHashes (txn ?s)
      = canonical_chain 0 [hash_of_byte 0x11, hash_of_byte 0xaa, hash_of_byte 0xbb, hash_of_byte 0xcc]"
    by (simp add: opened_on_def chain_db_def)
  have h4: "HeaderNumbers (txn ?s) = []" by (simp add: opened_on_def chain_db_def)
  have h5: "progress_of (cleared_context None) ?s kBlockBodiesKey = 3" by code_simp
  have h6: "progress_of (cleared_context None) ?s kBlockHashesKey = 0" by code_simp
  from forward_happy_path [OF h1 h2 h3 h4 h5 h6, of 1] h1 h2 h3 h4 h5 h6
  show ?thesis by simp
qed

text \<open>
  The scenario as the claim states it, with blocks 1 to 3 alone in \<open>CanonicalHashes\<close>:
  the key of block 0 is not found, the loop does not run, and the last block number, 0,
  is not the watermark of Bodies.
\<close>

theorem forward_without_genesis_counterexample:
  "CanonicalHashes (txn (opened_on (no_genesis_db [(kBlockBodiesKey, 3)])))
     = [(block_key 1, hash_of_byte 0xaa), (block_key 2, hash_of_byte 0xbb),
        (block_key 3, hash_of_byte 0xcc)]
   \<and> progress_of (cleared_context None) (opened_on (no_genesis_db [(kBlockBodiesKey, 3)])) kBlockBodiesKey = 3
   \<and> progress_of (cleared_context None) (opened_on (no_genesis_db [(kBlockBodiesKey, 3)])) kBlockHashesKey = 0
   \<and> fst (StageBlockHashes_forward (StageBlockHashes 1) (opened_on (no_genesis_db [(kBlockBodiesKey, 3)]))
             (cleared_context None)) = kBadChainSequence
   \<and> HeaderNumbers (txn (fst (snd (StageBlockHashes_forward (StageBlockHashes 1)
         (opened_on (no_genesis_db [(kBlockBodiesKey, 3)])) (cleared_context None))))) = []"
  by code_simp

section \<open>The BlockHashes stage: equal watermarks\<close>

lemma word64_of_nat_zero:
  assumes "(of_nat n :: 64 word) = 0" and "n < 2 ^ 64"
  shows "n = 0"
proof -
  have "2 ^ 64 dvd n" using assms(1) by (simp add: word_of_nat_eq_0_iff)
  then show ?thesis using assms(2) by (auto elim!: dvdE)
qed

lemma forward_loop_no_wrap:
  assumes "forward_loop cur (p + 1) bn coll = Inr (p, coll')" and "length cur < 2 ^ 64"
  shows "cur = []"
proof (rule ccontr)
  assume ne: "cur \<noteq> []"
  then have "p + 1 = p + 1 + of_nat (length cur)"
    using forward_loop_result [OF assms(1)] by simp
  then have "(of_nat (length cur) :: 64 word) = 0" by simp
  then show False using word64_of_nat_zero assms(2) ne by auto
qed

lemma forward_load_progress:
  assumes "forward_load stage tx_mgr c2 bn coll flags = (res, tx_mgr', context')"
      and "progress_of c2 tx_mgr (stage_key stage) = bn"
  shows "progress_of context' tx_mgr' (stage_key stage) = bn"
proof (cases "collector_load coll (HeaderNumbers (txn tx_mgr)) flags")
  case (Inl ex)
  then show ?thesis using assms by (auto simp: forward_load_def)
next
  case (Inr t')
  then have "context' = c2\<lparr>progresses := AList.update (stage_key stage) bn (progresses c2)\<rparr>"
    using assms(1) by (auto simp: forward_load_def update_progress_def)
  then show ?thesis by (simp add: progress_of_def get_progress_def update_conv')
qed

text \<open>
  C2, as the code has it. In every state where the watermarks of BlockHashes and Bodies
  are the same number \<open>p\<close> (the keys of \<open>CanonicalHashes\<close> having eight bytes),
  \<open>forward\<close> leaves the watermark of BlockHashes at \<open>p\<close>.
  When \<open>p\<close> is positive (and the canonical table has fewer than \<open>2^64\<close> entries) it
  writes and commits nothing: the transaction manager is returned as it was. When \<open>p\<close>
  is 0 and \<open>CanonicalHashes\<close> has no entry for block 0 it returns \<open>kSuccess\<close> and
  writes nothing. (When \<open>p\<close> is 0 and block 0 is there, the run of canonical entries from
  block 0 is read, and indexed if it ends at block 0.)
\<close>

theorem forward_equal_watermarks:
  assumes "progress_of context tx_mgr kBlockBodiesKey = p"
      and "progress_of context tx_mgr kBlockHashesKey = p"
      and "StageBlockHashes_forward (StageBlockHashes ord) tx_mgr context = (res, tx_mgr', context')"
      and "eight_byte_keys (CanonicalHashes (txn tx_mgr))"
  shows "progress_of context' tx_mgr' kBlockHashesKey = p
       \<and> (p \<noteq> 0 \<and> length (CanonicalHashes (txn tx_mgr)) < 2 ^ 64 \<longrightarrow> tx_mgr' = tx_mgr)
       \<and> (p = 0 \<and> block_key 0 \<notin> fst ` set (CanonicalHashes (txn tx_mgr))
            \<longrightarrow> res = kSuccess \<and> tx_mgr' = tx_mgr)"
proof -
  let ?st = "StageBlockHashes ord"
  let ?e = "if p \<noteq> 0 then p + 1 else p"
  let ?cur = "cursor_find (CanonicalHashes (txn tx_mgr)) (block_key ?e)"
  have key: "stage_key ?st = kBlockHashesKey" by (simp add: StageBlockHashes_def)
  obtain pb c1 c2 where r:
    "get_progress context (txn tx_mgr) kBlockBodiesKey = (pb, c1)"
    "get_progress c1 (txn tx_mgr) (stage_key ?st) = (progress_of context tx_mgr (stage_key ?st), c2)"
    "pb = progress_of context tx_mgr kBlockBodiesKey"
    "\<And>k. progress_of c2 tx_mgr k = progress_of context tx_mgr k"
    using forward_reads [of "context" tx_mgr ?st] by metis
  have c2p: "progress_of c2 tx_mgr kBlockHashesKey = p" using r(4) assms(2) by simp
  have unfold: "StageBlockHashes_forward ?st tx_mgr context =
     (case forward_loop ?cur ?e 0 [] of
        Inl res \<Rightarrow> (res, tx_mgr, c2)
      | Inr (bn, coll) \<Rightarrow>
          if bn \<noteq> p then (kBadChainSequence, tx_mgr, c2)
          else if coll = [] then (kSuccess, tx_mgr, c2)
          else forward_load ?st tx_mgr c2 bn coll
                 (if ms_entries (HeaderNumbers (txn tx_mgr)) = 0 then MDBX_APPEND else MDBX_UPSERT))"
    using r(1,2,3) assms(1,2) unfolding key
    by (simp add: StageBlockHashes_forward_def key split: sum.splits)
  have len: "length ?cur \<le> length (CanonicalHashes (txn tx_mgr))"
    by (simp add: cursor_find_def length_dropWhile_le)
  have empty: "?cur = []" if "p = 0" "block_key 0 \<notin> fst ` set (CanonicalHashes (txn tx_mgr))"
    using that by (force simp: cursor_find_def dropWhile_eq_Nil_conv)
  show ?thesis
  proof (cases "forward_loop ?cur ?e 0 []")
    case (Inl a)
    then have eq: "res = a" "tx_mgr' = tx_mgr" "context' = c2"
      using unfold assms(3) by simp_all
    have "\<not> (p = 0 \<and> block_key 0 \<notin> fst ` set (CanonicalHashes (txn tx_mgr)))"
    proof
      assume "p = 0 \<and> block_key 0 \<notin> fst ` set (CanonicalHashes (txn tx_mgr))"
      then have "?cur = []" using empty by blast
      then show False using Inl by simp
    qed
    then show ?thesis using eq c2p by blast
  next
    case (Inr b)
    obtain bn coll where b: "b = (bn, coll)" by (cases b)
    note loop = Inr [unfolded b]
    have shape: "(?cur = [] \<and> bn = 0 \<and> coll = [])
                 \<or> (?cur \<noteq> [] \<and> bn + 1 = ?e + of_nat (length ?cur) \<and> coll \<noteq> [])"
      using forward_loop_result [OF loop] by simp
    show ?thesis
    proof (cases "bn \<noteq> p \<or> coll = []")
      case True
      then have eq: "tx_mgr' = tx_mgr" "context' = c2"
        using unfold assms(3) loop by (auto split: if_splits)
      have "res = kSuccess" if "p = 0" "block_key 0 \<notin> fst ` set (CanonicalHashes (txn tx_mgr))"
      proof -
        have "?cur = []" using empty [OF that] .
        then have "bn = 0 \<and> coll = []" using shape by blast
        then show ?thesis using unfold assms(3) loop that(1) by simp
      qed
      then show ?thesis using eq c2p by blast
    next
      case False
      then have bn: "bn = p" and ne: "coll \<noteq> []" by simp_all
      have fl: "forward_load ?st tx_mgr c2 p coll
                 (if ms_entries (HeaderNumbers (txn tx_mgr)) = 0 then MDBX_APPEND else MDBX_UPSERT)
                = (res, tx_mgr', context')"
        using unfold assms(3) loop bn ne by simp
      have w: "progress_of context' tx_mgr' kBlockHashesKey = p"
        using forward_load_progress [OF fl] c2p by (simp add: key)
      have cur: "?cur \<noteq> []" using shape ne by auto
      have a: "\<not> (p \<noteq> 0 \<and> length (CanonicalHashes (txn tx_mgr)) < 2 ^ 64)"
      proof
        assume h: "p \<noteq> 0 \<and> length (CanonicalHashes (txn tx_mgr)) < 2 ^ 64"
        then have "forward_loop ?cur (p + 1) 0 [] = Inr (p, coll)" using loop bn by simp
        moreover have "length ?cur < 2 ^ 64" using len h by simp
        ultimately show False using forward_loop_no_wrap cur by blast
      qed
      have b: "\<not> (p = 0 \<and> block_key 0 \<notin> fst ` set (CanonicalHashes (txn tx_mgr)))"
        using empty cur by blast
      show ?thesis using w a b by blast
    qed
  qed
qed

theorem forward_equal_watermarks_witness:
  "progress_of (cleared_context None)
     (opened_on (chain_db full_index [(kBlockBodiesKey, 3), (kBlockHashesKey, 3)])) kBlockBodiesKey = 3
   \<and> progress_of (cleared_context None)
     (opened_on (chain_db full_index [(kBlockBodiesKey, 3), (kBlockHashesKey, 3)])) kBlockHashesKey = 3
   \<and> (3 :: BlockNum) \<noteq> 0
   \<and> eight_byte_keys (CanonicalHashes (txn (opened_on
         (chain_db full_index [(kBlockBodiesKey, 3), (kBlockHashesKey, 3)]))))
   \<and> eight_byte_keys (CanonicalHashes (txn (opened_on (no_genesis_db []))))
   \<and> length (CanonicalHashes (txn (opened_on
         (chain_db full_index [(kBlockBodiesKey, 3), (kBlockHashesKey, 3)])))) < 2 ^ 64
   \<and> progress_of
        (snd (snd (StageBlockHashes_forward (StageBlockHashes 1)
           (opened_on (chain_db full_index [(kBlockBodiesKey, 3), (kBlockHashesKey, 3)]))
           (cleared_context None))))
        (fst (snd (StageBlockHashes_forward (StageBlockHashes 1)
           (opened_on (chain_db full_index [(kBlockBodiesKey, 3), (kBlockHashesKey, 3)]))
           (cleared_context None))))
        kBlockHashesKey = 3
   \<and> fst (snd (StageBlockHashes_forward (StageBlockHashes 1)
           (opened_on (chain_db full_index [(kBlockBodiesKey, 3), (kBlockHashesKey, 3)]))
           (cleared_context None)))
      = opened_on (chain_db full_index [(kBlockBodiesKey, 3), (kBlockHashesKey, 3)])
   \<and> progress_of (cleared_context None) (opened_on (no_genesis_db [])) kBlockBodiesKey = 0
   \<and> progress_of (cleared_context None) (opened_on (no_genesis_db [])) kBlockHashesKey = 0
   \<and> block_key 0 \<notin> fst ` set (CanonicalHashes (txn (opened_on (no_genesis_db []))))
   \<and> fst (StageBlockHashes_forward (StageBlockHashes 1) (opened_on (no_genesis_db []))
        (cleared_context None)) = kSuccess
   \<and> fst (snd (StageBlockHashes_forward (StageBlockHashes 1) (opened_on (no_genesis_db []))
        (cleared_context None))) = opened_on (no_genesis_db [])"
proof -
  let ?A = "opened_on (chain_db full_index [(kBlockBodiesKey, 3), (kBlockHashesKey, 3)])"
  let ?B = "opened_on (no_genesis_db [])"
  let ?FA = "StageBlockHashes_forward (StageBlockHashes 1) ?A (cleared_context None)"
  let ?FB = "StageBlockHashes_forward (StageBlockHashes 1) ?B (cleared_context None)"
  have a1: "progress_of (cleared_context None) ?A kBlockBodiesKey = 3" by code_simp
  have a2: "progress_of (cleared_context None) ?A kBlockHashesKey = 3" by code_simp
  have a3: "?FA = (fst ?FA, fst (snd ?FA), snd (snd ?FA))" by simp
  have a4: "(3 :: BlockNum) \<noteq> 0" by simp
  have a5: "length (CanonicalHashes (txn ?A)) < 2 ^ 64"
    by (simp add: opened_on_def chain_db_def canonical_chain_def)
  have b1: "progress_of (cleared_context None) ?B kBlockBodiesKey = 0" by code_simp
  have b2: "progress_of (cleared_context None) ?B kBlockHashesKey = 0" by code_simp
  have b3: "?FB = (fst ?FB, fst (snd ?FB), snd (snd ?FB))" by simp
  have b4: "block_key 0 \<notin> fst ` set (CanonicalHashes (txn ?B))" by code_simp
  have a6: "eight_byte_keys (CanonicalHashes (txn ?A))" by code_simp
  have b6: "eight_byte_keys (CanonicalHashes (txn ?B))" by code_simp
  have A: "progress_of (snd (snd ?FA)) (fst (snd ?FA)) kBlockHashesKey = 3 \<and> fst (snd ?FA) = ?A"
    using forward_equal_watermarks [OF a1 a2 a3 a6] a4 a5 by blast
  have B: "fst ?FB = kSuccess \<and> fst (snd ?FB) = ?B"
    using forward_equal_watermarks [OF b1 b2 b3 b6] b4 by blast
  show ?thesis
    using A B a1 a2 a4 a5 a6 b1 b2 b4 b6 by blast
qed

text \<open>
  A fresh database holding block 0 alone: both watermarks are 0, and \<open>forward\<close> writes
  the entry of block 0 to \<open>HeaderNumbers\<close> and commits it.
\<close>

theorem forward_equal_watermarks_counterexample:
  "progress_of (cleared_context None) (opened_on genesis_only_db) kBlockBodiesKey = 0
   \<and> progress_of (cleared_context None) (opened_on genesis_only_db) kBlockHashesKey = 0
   \<and> HeaderNumbers (txn (opened_on genesis_only_db)) = []
   \<and> fst (StageBlockHashes_forward (StageBlockHashes 1) (opened_on genesis_only_db)
             (cleared_context None)) = kSuccess
   \<and> HeaderNumbers (txn (fst (snd (StageBlockHashes_forward (StageBlockHashes 1)
         (opened_on genesis_only_db) (cleared_context None)))))
      = [(hash_of_byte 0x11, block_key 0)]
   \<and> HeaderNumbers (committed (fst (snd (StageBlockHashes_forward (StageBlockHashes 1)
         (opened_on genesis_only_db) (cleared_context None)))))
      = [(hash_of_byte 0x11, block_key 0)]"
  by code_simp

text \<open>
  A second run after the stage has caught up with Bodies at block 3: the key of block 4
  is not found, the loop does not run, and the last block number is still its initial
  value 0, which is compared with the watermark of Bodies.
\<close>

lemma forward_repeated_run:
  "progress_of (cleared_context None)
     (opened_on (chain_db full_index [(kBlockBodiesKey, 3), (kBlockHashesKey, 3)]))
     kBlockBodiesKey = 3
   \<and> progress_of (cleared_context None)
     (opened_on (chain_db full_index [(kBlockBodiesKey, 3), (kBlockHashesKey, 3)]))
     kBlockHashesKey = 3
   \<and> fst (StageBlockHashes_forward (StageBlockHashes 1)
        (opened_on (chain_db full_index [(kBlockBodiesKey, 3), (kBlockHashesKey, 3)]))
        (cleared_context None)) = kBadChainSequence"
  by code_simp

end
